theory Spec2Isabelle
  imports
    Complex_Main
    "HOL-Library.Char_ord"
    "HOL-Library.List_Lexorder"
    "HOL-Library.Log_Nat"
begin

section \<open>The image server of \<^verbatim>\<open>app.py\<close>\<close>

text \<open>
  The development embeds the view function \<^verbatim>\<open>image\<close> of \<^verbatim>\<open>app.py\<close> (the route
  \<^verbatim>\<open>/images/<image>\<close>), here \<open>image_view\<close> with the argument \<open>ident\<close>: the path check,
  the cache key, the cache lookup, the four transformation blocks and the write of the
  artifact.

  Python's \<^verbatim>\<open>str\<close> and \<^verbatim>\<open>bytes\<close> are both \<^typ>\<open>string\<close>; a character of a \<^verbatim>\<open>str\<close>
  stands for a code point below 256. The query mapping \<^verbatim>\<open>request.args\<close> is the list of
  its (key, value) pairs in the order of the query string; a key may occur more than
  once, and the first occurrence is the one \<^verbatim>\<open>get\<close>, \<^verbatim>\<open>[]\<close> and \<^verbatim>\<open>items\<close> return.
\<close>

subsection \<open>Errors\<close>

text \<open>
  What the image library may raise: \<^verbatim>\<open>Image.open\<close> on bytes that are no image, an
  operation on a size it refuses, a failed write of the encoded file, and any other
  exception, by its name.
\<close>

datatype pil_error = UnidentifiedImageError | ValueError_size | OSError_write | OtherError string

text \<open>
  Every exception that leaves the view function, by the place that raises it:
  the \<^verbatim>\<open>assert\<close>, the \<^verbatim>\<open>raise OSError(path)\<close>, \<^verbatim>\<open>int\<close> on a string that is no integer
  literal, the division \<^verbatim>\<open>/\<close> by zero or with a quotient beyond the doubles, and the
  library.
\<close>

datatype error =
    AssertionError
  | OSError string
  | ValueError string
  | ZeroDivisionError
  | OverflowError
  | PIL pil_error

text \<open>
  The error kinds of the specification, read onto the places that raise. The
  specification has no kind for the two errors of the division, nor for the other
  exceptions of the library.
\<close>

datatype kind =
    InvalidReference | NotFound | InvalidParameter | InvalidGeometry | DecodeError | IOFailure

fun kind_of :: "error \<Rightarrow> kind option" where
  "kind_of AssertionError = Some InvalidReference"
| "kind_of (OSError p) = Some NotFound"
| "kind_of (ValueError s) = Some InvalidParameter"
| "kind_of ZeroDivisionError = None"
| "kind_of OverflowError = None"
| "kind_of (PIL UnidentifiedImageError) = Some DecodeError"
| "kind_of (PIL ValueError_size) = Some InvalidGeometry"
| "kind_of (PIL OSError_write) = Some IOFailure"
| "kind_of (PIL (OtherError n)) = None"

subsection \<open>The environment: configuration and library\<close>

text \<open>
  The functions of \<^verbatim>\<open>hashlib\<close> and Pillow that the view function calls are not code of
  the repository; they are fields of the environment, over any type of decoded images.
  \<^verbatim>\<open>Image_rotate\<close> takes the angle and Pillow's \<^verbatim>\<open>expand\<close> flag; \<^verbatim>\<open>Image_save\<close> is the
  encoder at the fixed settings of the source (JPEG, quality 80, optimize, progressive).
\<close>

record 'img env =
  root :: string
  md5_digest :: "string \<Rightarrow> string"
  Image_open :: "string \<Rightarrow> pil_error + 'img"
  Image_size :: "'img \<Rightarrow> int \<times> int"
  Image_resize :: "'img \<Rightarrow> int \<times> int \<Rightarrow> pil_error + 'img"
  Image_crop :: "'img \<Rightarrow> int \<times> int \<times> int \<times> int \<Rightarrow> pil_error + 'img"
  Image_rotate :: "'img \<Rightarrow> int \<Rightarrow> bool \<Rightarrow> pil_error + 'img"
  ImageOps_mirror :: "'img \<Rightarrow> pil_error + 'img"
  ImageOps_flip :: "'img \<Rightarrow> pil_error + 'img"
  Image_save :: "'img \<Rightarrow> pil_error + string"

definition lift :: "pil_error + 'a \<Rightarrow> error + 'a" where
  "lift r = (case r of Inl e \<Rightarrow> Inl (PIL e) | Inr x \<Rightarrow> Inr x)"

text \<open>\<^verbatim>\<open>os.path.join\<close> of \<^verbatim>\<open>posixpath\<close>, for two components.\<close>

definition os_path_join :: "string \<Rightarrow> string \<Rightarrow> string" where
  "os_path_join a b =
     (if b \<noteq> [] \<and> hd b = CHR ''/'' then b
      else if a = [] \<or> last a = CHR ''/'' then a @ b
      else a @ ''/'' @ b)"

definition images_path :: "'img env \<Rightarrow> string" where
  "images_path E = os_path_join (root E) ''images''"

definition cached_path :: "'img env \<Rightarrow> string" where
  "cached_path E = os_path_join (root E) ''cached''"

subsection \<open>The query mapping\<close>

type_synonym args = "(string \<times> string) list"

text \<open>\<^verbatim>\<open>request.args.get(k)\<close>: the first value of the key, or \<^verbatim>\<open>None\<close>.\<close>

definition args_get :: "args \<Rightarrow> string \<Rightarrow> string option" where
  "args_get a k = map_of a k"

text \<open>The truth value of \<^verbatim>\<open>request.args.get(k)\<close>: a missing key and an empty value are false.\<close>

definition given :: "args \<Rightarrow> string \<Rightarrow> bool" where
  "given a k = (case args_get a k of None \<Rightarrow> False | Some v \<Rightarrow> v \<noteq> [])"

text \<open>\<^verbatim>\<open>request.args[k]\<close>, read only under \<^const>\<open>given\<close>.\<close>

definition args_item :: "args \<Rightarrow> string \<Rightarrow> string" where
  "args_item a k = (case args_get a k of None \<Rightarrow> [] | Some v \<Rightarrow> v)"

text \<open>\<^verbatim>\<open>items()\<close>: each key once, with its first value, in the order of first occurrence.\<close>

fun items :: "args \<Rightarrow> args" where
  "items [] = []"
| "items ((k, v) # r) = (k, v) # items (filter (\<lambda>p. fst p \<noteq> k) r)"

subsection \<open>\<^verbatim>\<open>int\<close> on a string\<close>

text \<open>
  \<^verbatim>\<open>int\<close> of Python 3.11 on a \<^verbatim>\<open>str\<close>. The blanks it strips at both ends are the
  characters 9 to 13 and 32, and the two blanks above 127, which are 133 and 160; the
  characters 28 to 31 are blanks for \<^verbatim>\<open>str.isspace\<close> and not for \<^verbatim>\<open>int\<close>.
\<close>

definition is_space :: "char \<Rightarrow> bool" where
  "is_space c = (of_char c \<in> {9, 10, 11, 12, 13, 32, 133, 160 :: nat})"

definition is_digit :: "char \<Rightarrow> bool" where
  "is_digit c = (48 \<le> (of_char c :: nat) \<and> (of_char c :: nat) \<le> 57)"

definition strip :: "string \<Rightarrow> string" where
  "strip s = rev (dropWhile is_space (rev (dropWhile is_space s)))"

text \<open>
  Decimal digits, where one underscore may stand between two digits. The flag says
  that the character before was a digit.
\<close>

fun digits :: "bool \<Rightarrow> nat \<Rightarrow> string \<Rightarrow> nat option" where
  "digits d acc [] = (if d then Some acc else None)"
| "digits d acc (c # cs) =
     (if is_digit c then digits True (10 * acc + (of_char c - 48)) cs
      else if c = CHR ''_'' \<and> d then digits False acc cs
      else None)"

text \<open>
  After the blanks an optional sign, then the digits. A literal of more than 4300
  digits is refused with the same \<^verbatim>\<open>ValueError\<close> as a malformed one (the limit
  \<^verbatim>\<open>sys.int_info.default_max_str_digits\<close>); signs, blanks and underscores do not count.
\<close>

definition max_str_digits :: nat where
  "max_str_digits = 4300"

definition parse_int :: "string \<Rightarrow> int option" where
  "parse_int s =
     (case strip s of
        [] \<Rightarrow> None
      | c # cs \<Rightarrow>
          if max_str_digits < length (filter is_digit (c # cs)) then None
          else if c = CHR ''-'' then map_option (\<lambda>n. - int n) (digits False 0 cs)
          else if c = CHR ''+'' then map_option int (digits False 0 cs)
          else map_option int (digits False 0 (c # cs)))"

definition py_int :: "string \<Rightarrow> error + int" where
  "py_int s = (case parse_int s of None \<Rightarrow> Inl (ValueError s) | Some n \<Rightarrow> Inr n)"

subsection \<open>\<^verbatim>\<open>int\<close> on a quotient\<close>

text \<open>
  \<^verbatim>\<open>int(x)\<close> on a number cuts the fraction off, towards zero. A double is the rational
  number it stands for.
\<close>

definition trunc :: "rat \<Rightarrow> int" where
  "trunc q = (if 0 \<le> q then \<lfloor>q\<rfloor> else \<lceil>q\<rceil>)"

text \<open>To the nearest integer, a half to the even one. This is also Python's \<^verbatim>\<open>round\<close>.\<close>

definition py_round :: "rat \<Rightarrow> int" where
  "py_round q =
     (let f = \<lfloor>q\<rfloor>; d = q - of_int f
      in if d < 1 / 2 then f else if 1 / 2 < d then f + 1 else if even f then f else f + 1)"

text \<open>
  The binary exponent of \<open>\<bar>a\<bar> / \<bar>b\<bar>\<close>, for \<open>a\<close> and \<open>b\<close> that are not zero: the \<open>e\<close>
  with \<open>2 ^ e \<le> \<bar>a\<bar> / \<bar>b\<bar> < 2 ^ (e + 1)\<close>, from the bit lengths.
\<close>

definition binade :: "int \<Rightarrow> int \<Rightarrow> int" where
  "binade a b =
     (let d = bitlen \<bar>a\<bar> - bitlen \<bar>b\<bar>
      in if 2 powi d * rat_of_int \<bar>b\<bar> \<le> rat_of_int \<bar>a\<bar> then d else d - 1)"

text \<open>
  The double nearest to \<open>a / b\<close>, a tie to the even one: 53 bits from the binary
  exponent down, and no bit below \<open>2 ^ - 1074\<close>.
\<close>

definition to_double :: "int \<Rightarrow> int \<Rightarrow> rat" where
  "to_double a b =
     (if a = 0 then 0
      else
        (let q = rat_of_int a / rat_of_int b;
             p = max (binade a b - 52) (- 1074);
             m = py_round (\<bar>q\<bar> / 2 powi p)
         in sgn q * rat_of_int m * 2 powi p))"

text \<open>
  \<^verbatim>\<open>a / b\<close> on two integers: the quotient, rounded to a double. It raises on a zero
  divisor, and when the rounded quotient is beyond the largest double, which is from
  \<open>2 ^ 1024 - 2 ^ 970\<close> on.
\<close>

definition truediv :: "int \<Rightarrow> int \<Rightarrow> error + rat" where
  "truediv a b =
     (if b = 0 then Inl ZeroDivisionError
      else if (2 ^ 1024 - 2 ^ 970) * \<bar>b\<bar> \<le> \<bar>a\<bar> then Inl OverflowError
      else Inr (to_double a b))"

subsection \<open>The cache key\<close>

definition hex_digit :: "nat \<Rightarrow> char" where
  "hex_digit n = ''0123456789abcdef'' ! (n mod 16)"

definition hex2 :: "char \<Rightarrow> string" where
  "hex2 c = [hex_digit (of_char c div 16), hex_digit (of_char c)]"

text \<open>\<^verbatim>\<open>bytes.hex()\<close>.\<close>

definition hex :: "string \<Rightarrow> string" where
  "hex bs = concat (map hex2 bs)"

text \<open>
  A character inside a JSON string, as \<^verbatim>\<open>json.dumps\<close> writes it with its default
  \<^verbatim>\<open>ensure_ascii\<close>: the quote and the backslash escaped, the short escapes, and
  \<^verbatim>\<open>\u00XX\<close> for every other character outside of space to tilde.
\<close>

definition json_char :: "char \<Rightarrow> string" where
  "json_char c =
     (if c = CHR 0x22 then [CHR 0x5C, CHR 0x22]
      else if c = CHR 0x5C then [CHR 0x5C, CHR 0x5C]
      else if c = CHR 0x0A then [CHR 0x5C, CHR ''n'']
      else if c = CHR 0x0D then [CHR 0x5C, CHR ''r'']
      else if c = CHR 0x09 then [CHR 0x5C, CHR ''t'']
      else if c = CHR 0x0C then [CHR 0x5C, CHR ''f'']
      else if c = CHR 0x08 then [CHR 0x5C, CHR ''b'']
      else if 32 \<le> (of_char c :: nat) \<and> (of_char c :: nat) \<le> 126 then [c]
      else [CHR 0x5C, CHR ''u'', CHR ''0'', CHR ''0''] @ hex2 c)"

definition json_string :: "string \<Rightarrow> string" where
  "json_string s = [CHR 0x22] @ concat (map json_char s) @ [CHR 0x22]"

definition json_pair :: "string \<times> string \<Rightarrow> string" where
  "json_pair p = json_string (fst p) @ '': '' @ json_string (snd p)"

fun join :: "string \<Rightarrow> string list \<Rightarrow> string" where
  "join sep [] = []"
| "join sep [x] = x"
| "join sep (x # y # r) = x @ sep @ join sep (y # r)"

text \<open>
  \<^verbatim>\<open>json.dumps(request.args, sort_keys=True)\<close>: the items, sorted (their keys differ, so
  the order is the order of the keys), written with the separators \<^verbatim>\<open>", "\<close> and \<^verbatim>\<open>": "\<close>.
\<close>

definition json_dumps :: "args \<Rightarrow> string" where
  "json_dumps a = ''{'' @ join '', '' (map json_pair (sort_key fst (items a))) @ ''}''"

text \<open>\<^verbatim>\<open>str.encode('utf-8')\<close> on code points below 256.\<close>

definition utf8_char :: "char \<Rightarrow> string" where
  "utf8_char c =
     (if (of_char c :: nat) < 128 then [c]
      else [char_of (192 + (of_char c :: nat) div 64), char_of (128 + (of_char c :: nat) mod 64)])"

definition utf8 :: "string \<Rightarrow> string" where
  "utf8 s = concat (map utf8_char s)"

text \<open>Lines 96 to 99: the digest of identifier, \<^verbatim>\<open>-\<close> and the serialized mapping, in hex.\<close>

definition identity :: "'img env \<Rightarrow> string \<Rightarrow> args \<Rightarrow> string" where
  "identity E ident a = hex (md5_digest E (utf8 (join ''-'' [ident, json_dumps a])))"

definition target_path :: "'img env \<Rightarrow> string \<Rightarrow> args \<Rightarrow> string" where
  "target_path E ident a = os_path_join (cached_path E) (identity E ident a) @ ''.jpg''"

subsection \<open>The transformation blocks\<close>

text \<open>Lines 109 to 124: the size block. Each branch ends in \<^verbatim>\<open>image.resize\<close>.\<close>

definition resize_stage :: "'img env \<Rightarrow> args \<Rightarrow> 'img \<Rightarrow> error + 'img" where
  "resize_stage E a img =
     (if given a ''h'' \<and> given a ''w'' then
        (case py_int (args_item a ''h'') of Inl e \<Rightarrow> Inl e | Inr new_height \<Rightarrow>
         case py_int (args_item a ''w'') of Inl e \<Rightarrow> Inl e | Inr new_width \<Rightarrow>
           lift (Image_resize E img (new_width, new_height)))
      else if given a ''h'' then
        (let original_width = fst (Image_size E img);
             original_height = snd (Image_size E img)
         in case py_int (args_item a ''h'') of Inl e \<Rightarrow> Inl e | Inr new_height \<Rightarrow>
            case truediv (new_height * original_width) original_height of Inl e \<Rightarrow> Inl e | Inr q \<Rightarrow>
              lift (Image_resize E img (trunc q, new_height)))
      else if given a ''w'' then
        (let original_width = fst (Image_size E img);
             original_height = snd (Image_size E img)
         in case py_int (args_item a ''w'') of Inl e \<Rightarrow> Inl e | Inr new_width \<Rightarrow>
            case truediv (new_width * original_height) original_width of Inl e \<Rightarrow> Inl e | Inr q \<Rightarrow>
              lift (Image_resize E img (new_width, trunc q)))
      else Inr img)"

text \<open>
  Lines 127 to 147: the crop block. \<^verbatim>\<open>half\<close> and \<^verbatim>\<open>center\<close> are quotients by two, and
  \<^verbatim>\<open>int\<close> cuts their difference and their sum. The sides of an image are C integers,
  so the halves, their difference and their sum are doubles without rounding.
\<close>

definition crop_stage :: "'img env \<Rightarrow> args \<Rightarrow> 'img \<Rightarrow> error + 'img" where
  "crop_stage E a img =
     (if args_get a ''format'' = Some ''square'' then
        (let width = fst (Image_size E img);
             height = snd (Image_size E img)
         in if width > height then
              (let top = 0; bottom = height;
                   half = (of_int height / 2 :: rat);
                   center = (of_int width / 2 :: rat);
                   left = trunc (center - half);
                   right = trunc (center + half)
               in lift (Image_crop E img (left, top, right, bottom)))
            else if width < height then
              (let left = 0; right = width;
                   half = (of_int width / 2 :: rat);
                   center = (of_int height / 2 :: rat);
                   top = trunc (center - half);
                   bottom = trunc (center + half)
               in lift (Image_crop E img (left, top, right, bottom)))
            else Inr img)
      else Inr img)"

text \<open>
  Lines 150 to 152: the rotation block. The source passes the angle alone, so the
  \<^verbatim>\<open>expand\<close> flag has Pillow's default, which is off.
\<close>

definition rotate_stage :: "'img env \<Rightarrow> args \<Rightarrow> 'img \<Rightarrow> error + 'img" where
  "rotate_stage E a img =
     (if given a ''rot'' then
        (case py_int (args_item a ''rot'') of Inl e \<Rightarrow> Inl e | Inr angle \<Rightarrow>
           lift (Image_rotate E img angle False))
      else Inr img)"

text \<open>Lines 155 to 161: the flip block.\<close>

definition flip_stage :: "'img env \<Rightarrow> args \<Rightarrow> 'img \<Rightarrow> error + 'img" where
  "flip_stage E a img =
     (if args_get a ''flip'' = Some ''h'' then lift (ImageOps_mirror E img)
      else if args_get a ''flip'' = Some ''v'' then lift (ImageOps_flip E img)
      else if args_get a ''flip'' = Some ''hv'' then
        (case lift (ImageOps_flip E img) of Inl e \<Rightarrow> Inl e | Inr img1 \<Rightarrow>
           lift (ImageOps_mirror E img1))
      else Inr img)"

text \<open>Lines 109 to 161 in their order.\<close>

definition transform :: "'img env \<Rightarrow> args \<Rightarrow> 'img \<Rightarrow> error + 'img" where
  "transform E a img =
     (case resize_stage E a img of Inl e \<Rightarrow> Inl e | Inr img1 \<Rightarrow>
      case crop_stage E a img1 of Inl e \<Rightarrow> Inl e | Inr img2 \<Rightarrow>
      case rotate_stage E a img2 of Inl e \<Rightarrow> Inl e | Inr img3 \<Rightarrow>
        flip_stage E a img3)"

subsection \<open>The file system and the view function\<close>

text \<open>
  The state is the content of the regular files, by path, and the list of the calls
  that touched the file system so far, the latest last.
\<close>

datatype event = IsFile string | SendFile string | ImageOpen string | ImageSave string

record state =
  files :: "string \<rightharpoonup> string"
  trace :: "event list"

datatype response = Response (body: string) (mimetype: string)

definition log :: "event \<Rightarrow> state \<Rightarrow> state" where
  "log ev st = st\<lparr>trace := trace st @ [ev]\<rparr>"

definition isfile :: "state \<Rightarrow> string \<Rightarrow> bool" where
  "isfile st p = (files st p \<noteq> None)"

definition send_file :: "state \<Rightarrow> string \<Rightarrow> (error + response) \<times> state" where
  "send_file st p =
     (case files st p of
        None \<Rightarrow> (Inl (OSError p), log (SendFile p) st)
      | Some bs \<Rightarrow> (Inr (Response bs ''image/jpg''), log (SendFile p) st))"

text \<open>
  Lines 106 to 181: read the original, run the blocks, encode and store under the
  target path. The file is there only when the encoder has succeeded.
\<close>

definition process :: "'img env \<Rightarrow> state \<Rightarrow> string \<Rightarrow> args \<Rightarrow> string \<Rightarrow> (error + unit) \<times> state" where
  "process E st path a target =
     (let st1 = log (ImageOpen path) st in
      case files st1 path of
        None \<Rightarrow> (Inl (OSError path), st1)
      | Some bs \<Rightarrow>
          (case lift (Image_open E bs) of Inl e \<Rightarrow> (Inl e, st1) | Inr img \<Rightarrow>
           case transform E a img of Inl e \<Rightarrow> (Inl e, st1) | Inr img1 \<Rightarrow>
             (let st2 = log (ImageSave target) st1 in
              case lift (Image_save E img1) of
                Inl e \<Rightarrow> (Inl e, st2)
              | Inr out \<Rightarrow> (Inr (), st2\<lparr>files := (files st2)(target \<mapsto> out)\<rparr>))))"

text \<open>\<^verbatim>\<open>".." in image\<close>: the identifier has two dots in a row somewhere.\<close>

fun contains_dotdot :: "string \<Rightarrow> bool" where
  "contains_dotdot (c # d # r) = ((c = CHR ''.'' \<and> d = CHR ''.'') \<or> contains_dotdot (d # r))"
| "contains_dotdot r = False"

text \<open>Lines 75 to 191.\<close>

definition image_view :: "'img env \<Rightarrow> state \<Rightarrow> string \<Rightarrow> args \<Rightarrow> (error + response) \<times> state" where
  "image_view E st ident a =
     (if contains_dotdot ident then (Inl AssertionError, st)
      else
        (let path = os_path_join (images_path E) ident;
             st1 = log (IsFile path) st
         in if \<not> isfile st1 path then (Inl (OSError path), st1)
            else if a = [] then send_file st1 path
            else
              (let target = target_path E ident a;
                   st2 = log (IsFile target) st1
               in if \<not> isfile st2 target then
                    (case process E st2 path a target of
                       (Inl e, st3) \<Rightarrow> (Inl e, st3)
                     | (Inr u, st3) \<Rightarrow> send_file st3 target)
                  else send_file st2 target)))"

subsection \<open>What the size block asks the library for\<close>

text \<open>
  The pair \<^verbatim>\<open>(new_width, new_height)\<close> that the size block hands to \<^verbatim>\<open>image.resize\<close>,
  when it gets that far: in the branch of both values, of the height alone, of the
  width alone.
\<close>

definition new_size :: "'img env \<Rightarrow> args \<Rightarrow> 'img \<Rightarrow> (int \<times> int) option" where
  "new_size E a img =
     (if given a ''h'' \<and> given a ''w'' then
        (case (parse_int (args_item a ''h''), parse_int (args_item a ''w'')) of
           (Some new_height, Some new_width) \<Rightarrow> Some (new_width, new_height)
         | _ \<Rightarrow> None)
      else if given a ''h'' then
        (case parse_int (args_item a ''h'') of
           Some new_height \<Rightarrow>
             (case truediv (new_height * fst (Image_size E img)) (snd (Image_size E img)) of
                Inr q \<Rightarrow> Some (trunc q, new_height) | Inl e \<Rightarrow> None)
         | None \<Rightarrow> None)
      else if given a ''w'' then
        (case parse_int (args_item a ''w'') of
           Some new_width \<Rightarrow>
             (case truediv (new_width * snd (Image_size E img)) (fst (Image_size E img)) of
                Inr q \<Rightarrow> Some (new_width, trunc q) | Inl e \<Rightarrow> None)
         | None \<Rightarrow> None)
      else None)"

text \<open>A value is there, not empty, and \<^verbatim>\<open>int\<close> raises on it.\<close>

definition unparsable :: "args \<Rightarrow> string \<Rightarrow> bool" where
  "unparsable a k = (given a k \<and> parse_int (args_item a k) = None)"

subsection \<open>The library's contract\<close>

text \<open>
  What Pillow documents about the sizes of its results: \<^verbatim>\<open>resize\<close> returns an image of
  the size asked for, \<^verbatim>\<open>crop\<close> one of the size of the box, and \<^verbatim>\<open>rotate\<close> without
  \<^verbatim>\<open>expand\<close> one of the size of its input.
\<close>

definition pillow_sizes :: "'img env \<Rightarrow> bool" where
  "pillow_sizes E =
     ((\<forall>img sz img'. Image_resize E img sz = Inr img' \<longrightarrow> Image_size E img' = sz) \<and>
      (\<forall>img l t r b img'. l \<le> r \<and> t \<le> b \<and> Image_crop E img (l, t, r, b) = Inr img' \<longrightarrow>
          Image_size E img' = (r - l, b - t)) \<and>
      (\<forall>img angle img'. Image_rotate E img angle False = Inr img' \<longrightarrow>
          Image_size E img' = Image_size E img))"



subsection \<open>The formulas of the specification\<close>

text \<open>
  The width of the specification for a height alone:
  \<^verbatim>\<open>round(new_height * original_width / original_height)\<close>.
\<close>

definition spec_new_width :: "int \<Rightarrow> int \<Rightarrow> int \<Rightarrow> int" where
  "spec_new_width new_height original_width original_height =
     py_round (of_int (new_height * original_width) / of_int original_height)"

text \<open>
  The condition of the specification for \<^verbatim>\<open>InvalidParameter\<close>: a numeric field that does
  not parse as an integer, or a flip value that is none of \<^verbatim>\<open>h\<close>, \<^verbatim>\<open>v\<close>, \<^verbatim>\<open>hv\<close>.
\<close>

definition spec_invalid_parameter :: "args \<Rightarrow> bool" where
  "spec_invalid_parameter a =
     ((\<exists>k \<in> set [''w'', ''h'', ''rot''].
         case args_get a k of None \<Rightarrow> False | Some v \<Rightarrow> parse_int v = None) \<or>
      (case args_get a ''flip'' of None \<Rightarrow> False | Some v \<Rightarrow> v \<notin> set [''h'', ''v'', ''hv'']))"

subsection \<open>A small library to run the model on\<close>

text \<open>
  An environment for evaluating the definitions on concrete requests. A picture is a
  size and a payload; a file decodes when it starts with two bytes for width and height;
  the encoder writes a mark and the payload; \<^verbatim>\<open>rotate\<close> with \<^verbatim>\<open>expand\<close> swaps
  the sides at an odd multiple of 90 degrees; the digest is the length of its input.
\<close>

datatype picture = Picture (psize: "int \<times> int") (pdata: string)

definition demo_open :: "string \<Rightarrow> pil_error + picture" where
  "demo_open bs =
     (case bs of
        w # h # r \<Rightarrow> Inr (Picture (int (of_char w), int (of_char h)) r)
      | _ \<Rightarrow> Inl UnidentifiedImageError)"

definition demo_resize :: "picture \<Rightarrow> int \<times> int \<Rightarrow> pil_error + picture" where
  "demo_resize p sz =
     (if psize p = sz then Inr p
      else if fst sz < 1 \<or> snd sz < 1 then Inl ValueError_size
      else Inr (Picture sz (pdata p)))"

definition demo_crop :: "picture \<Rightarrow> int \<times> int \<times> int \<times> int \<Rightarrow> pil_error + picture" where
  "demo_crop p box =
     (case box of (l, t, r, b) \<Rightarrow> Inr (Picture (r - l, b - t) (pdata p)))"

definition demo_rotate :: "picture \<Rightarrow> int \<Rightarrow> bool \<Rightarrow> pil_error + picture" where
  "demo_rotate p angle expand =
     (if expand \<and> angle mod 180 = 90 then Inr (Picture (snd (psize p), fst (psize p)) (pdata p))
      else if expand \<and> angle mod 180 \<noteq> 0 then
        Inr (Picture (fst (psize p) + snd (psize p), fst (psize p) + snd (psize p)) (pdata p))
      else Inr p)"

definition demo_save :: "picture \<Rightarrow> pil_error + string" where
  "demo_save p = Inr (''JPEG'' @ pdata p)"

definition demo :: "picture env" where
  "demo =
     \<lparr> root = ''/srv'',
       md5_digest = (\<lambda>bs. [char_of (length bs)]),
       Image_open = demo_open,
       Image_size = psize,
       Image_resize = demo_resize,
       Image_crop = demo_crop,
       Image_rotate = demo_rotate,
       ImageOps_mirror = (\<lambda>p. Inr (Picture (psize p) (rev (pdata p)))),
       ImageOps_flip = (\<lambda>p. Inr (Picture (psize p) (rev (pdata p)))),
       Image_save = demo_save \<rparr>"

text \<open>A store with one original of 5 by 3, and nothing cached.\<close>

definition st0 :: state where
  "st0 = \<lparr> files = [''/srv/images/cat.jpg'' \<mapsto> [CHR 0x05, CHR 0x03, CHR ''x'']], trace = [] \<rparr>"


section \<open>Properties\<close>

subsection \<open>The rounded quotient\<close>

lemma py_round_error: "\<bar>rat_of_int (py_round x) - x\<bar> \<le> 1 / 2"
proof -
  have "rat_of_int \<lfloor>x\<rfloor> \<le> x" "x < rat_of_int \<lfloor>x\<rfloor> + 1"
    by linarith+
  then show ?thesis
    by (auto simp: py_round_def Let_def)
qed

lemma py_round_of_int: "py_round (rat_of_int k) = k"
  by (simp add: py_round_def)

lemma py_round_nonneg: "0 \<le> x \<Longrightarrow> 0 \<le> py_round x"
  by (auto simp: py_round_def Let_def)

lemma bitlen_powi:
  assumes "0 < n"
  shows "2 powi (bitlen n - 1) \<le> rat_of_int n" and "rat_of_int n < 2 powi bitlen n"
proof -
  from bitlen_bounds [OF assms]
  have l: "2 ^ nat (bitlen n - 1) \<le> n" and u: "n < 2 ^ nat (bitlen n)" by simp_all
  have p: "1 \<le> bitlen n"
    using assms bitlen_eq_zero_iff [of n] bitlen_nonneg [of n] by linarith
  from l have "rat_of_int (2 ^ nat (bitlen n - 1)) \<le> rat_of_int n"
    by (simp only: of_int_le_iff)
  then show "2 powi (bitlen n - 1) \<le> rat_of_int n"
    using p by (simp add: power_int_nonneg_exp)
  from u have "rat_of_int n < rat_of_int (2 ^ nat (bitlen n))"
    by (simp only: of_int_less_iff)
  then show "rat_of_int n < 2 powi bitlen n"
    using p by (simp add: power_int_nonneg_exp)
qed

lemma binade_bounds:
  assumes "a \<noteq> 0" "b \<noteq> 0"
  shows "2 powi binade a b \<le> rat_of_int \<bar>a\<bar> / rat_of_int \<bar>b\<bar>"
    and "rat_of_int \<bar>a\<bar> / rat_of_int \<bar>b\<bar> < 2 powi (binade a b + 1)"
proof -
  let ?A = "rat_of_int \<bar>a\<bar>" and ?B = "rat_of_int \<bar>b\<bar>"
  let ?d = "bitlen \<bar>a\<bar> - bitlen \<bar>b\<bar>"
  have pa: "0 < \<bar>a\<bar>" and pb: "0 < \<bar>b\<bar>" using assms by simp_all
  have B: "0 < ?B" using pb by simp
  note la = bitlen_powi [OF pa] and lb = bitlen_powi [OF pb]
  have low: "2 powi (?d - 1) * ?B \<le> ?A"
  proof -
    have "2 powi (?d - 1) * ?B \<le> 2 powi (?d - 1) * 2 powi bitlen \<bar>b\<bar>"
      using lb(2) by (intro mult_left_mono) simp_all
    also have "\<dots> = 2 powi (bitlen \<bar>a\<bar> - 1)"
      by (simp add: power_int_add [symmetric])
    also have "\<dots> \<le> ?A" by (rule la(1))
    finally show ?thesis .
  qed
  have up: "?A < 2 powi (?d + 1) * ?B"
  proof -
    have "?A < 2 powi bitlen \<bar>a\<bar>" by (rule la(2))
    also have "\<dots> = 2 powi (?d + 1) * 2 powi (bitlen \<bar>b\<bar> - 1)"
      by (simp add: power_int_add [symmetric])
    also have "\<dots> \<le> 2 powi (?d + 1) * ?B"
      using lb(1) by (intro mult_left_mono) simp_all
    finally show ?thesis .
  qed
  show "2 powi binade a b \<le> ?A / ?B"
    using low B by (auto simp: binade_def Let_def pos_le_divide_eq)
  show "?A / ?B < 2 powi (binade a b + 1)"
    using up B by (auto simp: binade_def Let_def pos_divide_less_eq not_le)
qed

text \<open>
  A numerator below \<open>2 ^ 53\<close>: the rounding moves the quotient by less than one part in
  \<open>2 ^ 53\<close>, which is less than the distance of the quotient from the next integer, and
  an integer quotient is a double. So the cut of the double is the cut of the quotient.
\<close>

lemma trunc_minus: "trunc (- y) = - trunc y"
  by (cases "y = 0") (auto simp: trunc_def ceiling_def)

lemma floor_rounded:
  fixes a b :: int
  assumes a: "a \<noteq> 0" and b: "b \<noteq> 0" and small: "\<bar>a\<bar> < 2 ^ 53"
  shows "\<lfloor>rat_of_int (py_round (rat_of_int \<bar>a\<bar> / rat_of_int \<bar>b\<bar> /
            2 powi max (binade a b - 52) (- 1074))) * 2 powi max (binade a b - 52) (- 1074)\<rfloor> =
         \<lfloor>rat_of_int \<bar>a\<bar> / rat_of_int \<bar>b\<bar>\<rfloor>"
proof -
  let ?A = "rat_of_int \<bar>a\<bar>" and ?B = "rat_of_int \<bar>b\<bar>"
  define x where "x = ?A / ?B"
  define p where "p = max (binade a b - 52) (- 1074)"
  define P where "P = (2::rat) powi p"
  define m where "m = py_round (x / P)"
  define r where "r = rat_of_int m * P"
  define n where "n = \<lfloor>x\<rfloor>"
  have A: "1 \<le> ?A" and B: "1 \<le> ?B"
    using a b by (simp_all add: abs_if) 
  have A53: "?A < 2 ^ 53"
  proof -
    have "rat_of_int \<bar>a\<bar> < rat_of_int (2 ^ 53)" using small by (simp only: of_int_less_iff)
    then show ?thesis by simp
  qed
  have x0: "0 < x" using A B by (simp add: x_def)
  have P0: "0 < P" by (simp add: P_def)
  have err: "\<bar>r - x\<bar> \<le> P / 2"
  proof -
    have "\<bar>rat_of_int m - x / P\<bar> \<le> 1 / 2"
      unfolding m_def by (rule py_round_error)
    then have "\<bar>rat_of_int m - x / P\<bar> * P \<le> 1 / 2 * P"
      using P0 by (intro mult_right_mono) simp_all
    moreover have "\<bar>rat_of_int m - x / P\<bar> * P = \<bar>r - x\<bar>"
      using P0 by (simp add: r_def abs_mult [symmetric] left_diff_distrib abs_mult_pos)
    ultimately show ?thesis by simp
  qed
  have r0: "0 \<le> r"
    using P0 x0 py_round_nonneg [of "x / P"] by (simp add: r_def m_def)
  have nx: "rat_of_int n \<le> x" and xn: "x < rat_of_int n + 1"
    unfolding n_def by linarith+
  have div: "n = \<bar>a\<bar> div \<bar>b\<bar>"
    unfolding n_def x_def by (rule floor_divide_of_int_eq)
  have gap_up: "x + 1 / ?B \<le> rat_of_int n + 1"
  proof -
    have "\<bar>a\<bar> mod \<bar>b\<bar> < \<bar>b\<bar>"
      using b by simp
    moreover have "\<bar>a\<bar> = n * \<bar>b\<bar> + \<bar>a\<bar> mod \<bar>b\<bar>"
      by (simp add: div)
    ultimately have "\<bar>a\<bar> < n * \<bar>b\<bar> + \<bar>b\<bar>"
      by linarith
    then have "\<bar>a\<bar> < (n + 1) * \<bar>b\<bar>"
      by (simp add: distrib_right)
    then have "\<bar>a\<bar> + 1 \<le> (n + 1) * \<bar>b\<bar>" by simp
    then have "rat_of_int (\<bar>a\<bar> + 1) \<le> rat_of_int ((n + 1) * \<bar>b\<bar>)"
      by (simp only: of_int_le_iff)
    then have "?A + 1 \<le> (rat_of_int n + 1) * ?B" by simp
    then have "(?A + 1) / ?B \<le> rat_of_int n + 1"
      using B by (simp add: pos_divide_le_eq)
    then show ?thesis by (simp add: x_def add_divide_distrib)
  qed
  have gap_down: "rat_of_int n + 1 / ?B \<le> x" if "rat_of_int n \<noteq> x"
  proof -
    have "rat_of_int (n * \<bar>b\<bar>) \<noteq> rat_of_int \<bar>a\<bar>"
    proof
      assume "rat_of_int (n * \<bar>b\<bar>) = rat_of_int \<bar>a\<bar>"
      then have "rat_of_int n * ?B = ?A" by simp
      then have "rat_of_int n = x" using B by (simp add: x_def field_simps)
      with that show False by simp
    qed
    then have "n * \<bar>b\<bar> \<noteq> \<bar>a\<bar>" by (simp only: of_int_eq_iff) simp
    moreover have "0 \<le> \<bar>a\<bar> mod \<bar>b\<bar>"
      using b by simp
    moreover have "\<bar>a\<bar> = n * \<bar>b\<bar> + \<bar>a\<bar> mod \<bar>b\<bar>"
      by (simp add: div)
    ultimately have "n * \<bar>b\<bar> + 1 \<le> \<bar>a\<bar>" by linarith
    then have "rat_of_int (n * \<bar>b\<bar> + 1) \<le> rat_of_int \<bar>a\<bar>"
      by (simp only: of_int_le_iff)
    then have "rat_of_int n * ?B + 1 \<le> ?A" by simp
    then have "(rat_of_int n * ?B + 1) / ?B \<le> ?A / ?B"
      using B by (intro divide_right_mono) simp_all
    then show ?thesis using B by (simp add: x_def add_divide_distrib)
  qed
  have "rat_of_int n \<le> r \<and> r < rat_of_int n + 1"
  proof (cases "- 1074 \<le> binade a b - 52")
    case True
    then have p: "p = binade a b - 52" by (simp add: p_def)
    have Pe: "P = 2 powi binade a b / 2 ^ 52"
      unfolding P_def p by (simp add: power_int_diff)
    have "2 powi binade a b \<le> x"
      unfolding x_def by (rule binade_bounds(1) [OF a b])
    then have Px: "P \<le> x / 2 ^ 52"
      unfolding Pe by (intro divide_right_mono) simp_all
    have "x / 2 ^ 53 < 1 / ?B"
    proof -
      have "x / 2 ^ 53 = (?A / 2 ^ 53) / ?B" by (simp add: x_def)
      also have "\<dots> < 1 / ?B"
        using A53 B by (intro divide_strict_right_mono) simp_all
      finally show ?thesis .
    qed
    with Px err have e: "\<bar>r - x\<bar> < 1 / ?B" by simp
    have up: "r < rat_of_int n + 1"
      using e gap_up by linarith
    have low: "rat_of_int n \<le> r"
    proof (cases "rat_of_int n = x")
      case False
      from gap_down [OF False] e show ?thesis by linarith
    next
      case eq: True
      have "x < 2 powi 53"
      proof -
        have "x \<le> ?A" using A B by (simp add: x_def pos_divide_le_eq mult_le_cancel_left1)
        with A53 show ?thesis by simp
      qed
      with \<open>2 powi binade a b \<le> x\<close> have "(2::rat) powi binade a b < 2 powi 53" by linarith
      then have "binade a b < 53" by (rule power_int_le_imp_less_exp [rotated]) simp_all
      then have p0: "p \<le> 0" by (simp add: p)
      then have "x / P = rat_of_int (n * 2 ^ nat (- p))"
        using eq [symmetric] by (simp add: P_def power_int_def inverse_eq_divide power_one_over
            field_simps)
      then have "m = n * 2 ^ nat (- p)"
        unfolding m_def by (simp only: py_round_of_int)
      then have "r = x"
        using p0 eq [symmetric] by (simp add: r_def P_def power_int_def inverse_eq_divide
            power_one_over field_simps)
      with eq show ?thesis by simp
    qed
    from low up show ?thesis by simp
  next
    case False
    then have p: "p = - 1074" and e: "binade a b + 1 \<le> - 1022" by (simp_all add: p_def)
    have "x < 2 powi (binade a b + 1)"
      unfolding x_def by (rule binade_bounds(2) [OF a b])
    also have "\<dots> \<le> 2 powi (- 1022)"
      using e by (intro power_int_increasing) simp_all
    also have "\<dots> \<le> 2 powi (- 1)"
      by (intro power_int_increasing) simp_all
    also have "\<dots> = 1 / 2"
      by (simp add: inverse_eq_divide)
    finally have x2: "x < 1 / 2" .
    then have n0: "n = 0" using x0 unfolding n_def by (simp add: floor_eq_iff)
    have "(2::rat) powi (- 1074) \<le> 2 powi 0"
      by (intro power_int_increasing) simp_all
    then have "P \<le> 1"
      unfolding P_def p by simp
    with err x2 have "r < 1" by linarith
    with r0 n0 show ?thesis by simp
  qed
  then have "\<lfloor>r\<rfloor> = n" by (simp add: floor_eq_iff)
  then show ?thesis
    by (simp add: r_def m_def P_def p_def x_def n_def)
qed

lemma trunc_to_double:
  assumes "\<bar>a\<bar> < 2 ^ 53" and "b \<noteq> 0"
  shows "trunc (to_double a b) = trunc (rat_of_int a / rat_of_int b)"
proof (cases "a = 0")
  case True
  then show ?thesis by (simp add: to_double_def trunc_def)
next
  case False
  let ?x = "rat_of_int \<bar>a\<bar> / rat_of_int \<bar>b\<bar>"
  let ?P = "(2::rat) powi max (binade a b - 52) (- 1074)"
  let ?r = "rat_of_int (py_round (?x / ?P)) * ?P"
  let ?q = "rat_of_int a / rat_of_int b"
  have ax: "\<bar>?q\<bar> = ?x" by simp
  have f: "\<lfloor>?r\<rfloor> = \<lfloor>?x\<rfloor>"
    by (rule floor_rounded [OF False assms(2) assms(1)])
  have x0: "0 \<le> ?x" by simp
  have r0: "0 \<le> ?r"
    using py_round_nonneg [OF divide_nonneg_pos [OF x0, of ?P]] by simp
  have t: "trunc ?r = trunc ?x"
    using f x0 r0 by (simp add: trunc_def)
  have d: "to_double a b = sgn ?q * ?r"
    using False by (simp add: to_double_def Let_def ax del: abs_divide) 
  have q0: "?q \<noteq> 0" using False assms(2) by simp
  show ?thesis
  proof (cases "0 < ?q")
    case True
    then have "?q = ?x" using ax by linarith
    with True t d show ?thesis by simp
  next
    case False
    with q0 have neg: "?q < 0" by linarith
    then have "?q = - ?x" using ax by linarith
    moreover have "sgn ?q = - 1" using neg by (rule sgn_neg)
    then have "to_double a b = - ?r" unfolding d by (simp only: mult_minus1)
    ultimately show ?thesis using t by (simp only: trunc_minus)
  qed
qed

lemma truediv_small:
  assumes "\<bar>a\<bar> < 2 ^ 53" and "b \<noteq> 0"
  shows "truediv a b = Inr (to_double a b)"
proof -
  have "(2 ^ 53 :: int) \<le> 2 ^ 1024 - 2 ^ 970" by simp
  moreover have "1 \<le> \<bar>b\<bar>" using assms(2) by simp
  ultimately have "(2 ^ 53 :: int) * 1 \<le> (2 ^ 1024 - 2 ^ 970) * \<bar>b\<bar>"
    by (intro mult_mono) simp_all
  with assms show ?thesis
    by (simp add: truediv_def)
qed

lemma trunc_to_double_div:
  assumes "\<bar>a\<bar> < 2 ^ 53" and "0 \<le> a" and "0 < b"
  shows "trunc (to_double a b) = a div b"
proof -
  have "trunc (to_double a b) = trunc (rat_of_int a / rat_of_int b)"
    using assms by (intro trunc_to_double) simp_all
  also have "\<dots> = a div b"
    using assms by (simp add: trunc_def floor_divide_of_int_eq)
  finally show ?thesis .
qed

subsection \<open>The items of the query mapping\<close>

lemma map_of_filter_key:
  "map_of (filter (\<lambda>p. fst p \<noteq> k) r) k' = (if k' = k then None else map_of r k')"
  by (induction r) auto

lemma items_graph: "((k, v) \<in> set (items a)) = (map_of a k = Some v)"
  by (induction a arbitrary: k v rule: items.induct) (auto simp: map_of_filter_key)

lemma items_keys_distinct: "distinct (map fst (items a))"
proof (induction a rule: items.induct)
  case 1
  show ?case by simp
next
  case (2 k v r)
  have "k \<notin> fst ` set (items (filter (\<lambda>p. fst p \<noteq> k) r))"
  proof
    assume "k \<in> fst ` set (items (filter (\<lambda>p. fst p \<noteq> k) r))"
    then obtain v' where "(k, v') \<in> set (items (filter (\<lambda>p. fst p \<noteq> k) r))"
      by force
    then show False
      by (simp add: items_graph map_of_filter_key)
  qed
  with 2 show ?case by simp
qed

lemma sorted_items_keys: "sorted_wrt (<) (map fst (sort_key fst (items a)))"
proof -
  have "distinct (map fst (sort_key fst (items a)))"
    using items_keys_distinct [of a] by (simp add: distinct_map)
  then show ?thesis
    by (simp add: strict_sorted_iff)
qed

lemma sorted_items_eq:
  assumes "map_of a = map_of b"
  shows "sort_key fst (items a) = sort_key fst (items b)"
proof (rule map_sorted_distinct_set_unique [where f = fst])
  have s: "set (items a) = set (items b)"
    using assms by (auto simp: items_graph)
  show "inj_on fst (set (sort_key fst (items a)) \<union> set (sort_key fst (items b)))"
    using s items_keys_distinct [of a] by (simp add: distinct_map)
  show "set (sort_key fst (items a)) = set (sort_key fst (items b))"
    using s by simp
qed (use items_keys_distinct [of a] items_keys_distinct [of b] in \<open>simp_all add: distinct_map\<close>)

subsection \<open>The cache key\<close>

text \<open>
  C1. Two query mappings with the same key-value pairs, in whatever order they are
  presented, give the same cache key for every identifier. The key is the hex digest of
  the hash of the identifier, the separator \<^verbatim>\<open>-\<close> and the serialization of the pairs in
  the strict order of their keys.
\<close>

theorem cache_key_order_invariant:
  assumes "map_of a = map_of b"
  shows "identity E ident a = identity E ident b \<and>
    (\<exists>l. sorted_wrt (<) (map fst l) \<and>
         set l = {(k, v). args_get a k = Some v} \<and>
         identity E ident a =
           hex (md5_digest E (utf8 (ident @ ''-'' @ ''{'' @ join '', '' (map json_pair l) @ ''}''))))"
proof
  show "identity E ident a = identity E ident b"
    using sorted_items_eq [OF assms] by (simp add: identity_def json_dumps_def)
  have "set (sort_key fst (items a)) = {(k, v). args_get a k = Some v}"
    by (auto simp: items_graph args_get_def)
  moreover have "identity E ident a =
      hex (md5_digest E (utf8 (ident @ ''-'' @ ''{'' @
        join '', '' (map json_pair (sort_key fst (items a))) @ ''}'')))"
    by (simp add: identity_def json_dumps_def)
  ultimately show "\<exists>l. sorted_wrt (<) (map fst l) \<and>
         set l = {(k, v). args_get a k = Some v} \<and>
         identity E ident a =
           hex (md5_digest E (utf8 (ident @ ''-'' @ ''{'' @ join '', '' (map json_pair l) @ ''}'')))"
    using sorted_items_keys [of a] by blast
qed

theorem cache_key_order_invariant_witness:
  "map_of [(''w'', ''100''), (''h'', ''50'')] = map_of [(''h'', ''50''), (''w'', ''100'')] \<and>
   identity demo ''cat.jpg'' [(''w'', ''100''), (''h'', ''50'')] =
   identity demo ''cat.jpg'' [(''h'', ''50''), (''w'', ''100'')] \<and>
   json_dumps [(''w'', ''100''), (''h'', ''50'')] =
     [CHR ''{'', CHR 0x22, CHR ''h'', CHR 0x22, CHR '':'', CHR '' '', CHR 0x22,
      CHR ''5'', CHR ''0'', CHR 0x22, CHR '','', CHR '' '', CHR 0x22, CHR ''w'',
      CHR 0x22, CHR '':'', CHR '' '', CHR 0x22, CHR ''1'', CHR ''0'', CHR ''0'',
      CHR 0x22, CHR ''}'']"
proof -
  have h: "map_of [(''w'', ''100''), (''h'', ''50'')] = map_of [(''h'', ''50''), (''w'', ''100'')]"
    by (auto simp: fun_eq_iff)
  have j: "json_dumps [(''w'', ''100''), (''h'', ''50'')] =
     [CHR ''{'', CHR 0x22, CHR ''h'', CHR 0x22, CHR '':'', CHR '' '', CHR 0x22,
      CHR ''5'', CHR ''0'', CHR 0x22, CHR '','', CHR '' '', CHR 0x22, CHR ''w'',
      CHR 0x22, CHR '':'', CHR '' '', CHR 0x22, CHR ''1'', CHR ''0'', CHR ''0'',
      CHR 0x22, CHR ''}'']"
    by (simp add: json_dumps_def json_pair_def json_string_def json_char_def)
  show ?thesis
    using h j cache_key_order_invariant [OF h, of demo "''cat.jpg''"] by blast
qed

subsection \<open>The path check\<close>

lemma contains_dotdot_append: "contains_dotdot (p @ ''..'' @ s)"
proof (induction p)
  case Nil
  show ?case by simp
next
  case (Cons c p)
  then show ?case
    by (cases "p @ ''..'' @ s") simp_all
qed

lemma contains_dotdot_split: "contains_dotdot s \<Longrightarrow> \<exists>p r. s = p @ ''..'' @ r"
proof (induction s rule: contains_dotdot.induct)
  case (1 c d r)
  show ?case
  proof (cases "c = CHR ''.'' \<and> d = CHR ''.''")
    case True
    then have "c # d # r = [] @ ''..'' @ r" by simp
    then show ?thesis by blast
  next
    case False
    with 1 obtain p r' where "d # r = p @ ''..'' @ r'" by auto
    then have "c # d # r = (c # p) @ ''..'' @ r'" by simp
    then show ?thesis by blast
  qed
qed simp_all

subsection \<open>The view function, case by case\<close>

lemma image_view_original:
  assumes "\<not> contains_dotdot ident" "files st (os_path_join (images_path E) ident) = Some src"
  shows "image_view E st ident [] =
    (Inr (Response src ''image/jpg''),
     st\<lparr>trace := trace st @ [IsFile (os_path_join (images_path E) ident),
                              SendFile (os_path_join (images_path E) ident)]\<rparr>)"
  using assms by (simp add: image_view_def Let_def isfile_def log_def send_file_def)

lemma image_view_hit:
  assumes "\<not> contains_dotdot ident" "a \<noteq> []"
    "files st (os_path_join (images_path E) ident) = Some src"
    "files st (target_path E ident a) = Some art"
  shows "image_view E st ident a =
    (Inr (Response art ''image/jpg''),
     st\<lparr>trace := trace st @ [IsFile (os_path_join (images_path E) ident),
                              IsFile (target_path E ident a),
                              SendFile (target_path E ident a)]\<rparr>)"
  using assms by (simp add: image_view_def Let_def isfile_def log_def send_file_def)

lemma image_view_miss:
  assumes "\<not> contains_dotdot ident" "a \<noteq> []"
    "files st (os_path_join (images_path E) ident) = Some src"
    "files st (target_path E ident a) = None"
  shows "image_view E st ident a =
    (case process E (st\<lparr>trace := trace st @ [IsFile (os_path_join (images_path E) ident),
                                               IsFile (target_path E ident a)]\<rparr>)
            (os_path_join (images_path E) ident) a (target_path E ident a) of
       (Inl e, st3) \<Rightarrow> (Inl e, st3)
     | (Inr u, st3) \<Rightarrow> send_file st3 (target_path E ident a))"
  using assms by (simp add: image_view_def Let_def isfile_def log_def)

lemma process_Inl:
  "process E st path a target = (Inl e, st') \<Longrightarrow> files st' = files st"
  by (auto simp: process_def Let_def log_def split: option.splits sum.splits)

lemma process_Inr:
  "process E st path a target = (Inr u, st') \<Longrightarrow>
     \<exists>out. st' = st\<lparr>trace := trace st @ [ImageOpen path, ImageSave target],
                     files := (files st)(target \<mapsto> out)\<rparr>"
  by (auto simp: process_def Let_def log_def split: option.splits sum.splits)

lemma process_success:
  assumes "files st path = Some src" "Image_open E src = Inr img"
    "transform E a img = Inr img1" "Image_save E img1 = Inr out"
  shows "process E st path a target =
    (Inr (), st\<lparr>files := (files st)(target \<mapsto> out),
                 trace := trace st @ [ImageOpen path, ImageSave target]\<rparr>)"
  using assms by (simp add: process_def Let_def log_def lift_def)


lemma image_view_Inr_cases:
  assumes "image_view E st ident a = (Inr r, st')" "a \<noteq> []"
  shows "\<not> contains_dotdot ident \<and> files st (os_path_join (images_path E) ident) \<noteq> None \<and>
    ((\<exists>art. files st (target_path E ident a) = Some art \<and> r = Response art ''image/jpg'' \<and>
        st' = st\<lparr>trace := trace st @ [IsFile (os_path_join (images_path E) ident),
                              IsFile (target_path E ident a),
                              SendFile (target_path E ident a)]\<rparr>) \<or>
     (\<exists>out. files st (target_path E ident a) = None \<and> r = Response out ''image/jpg'' \<and>
        st' = st\<lparr>files := (files st)(target_path E ident a \<mapsto> out),
                  trace := trace st @ [IsFile (os_path_join (images_path E) ident),
                              IsFile (target_path E ident a),
                              ImageOpen (os_path_join (images_path E) ident),
                              ImageSave (target_path E ident a),
                              SendFile (target_path E ident a)]\<rparr>))"
proof -
  let ?path = "os_path_join (images_path E) ident"
  let ?target = "target_path E ident a"
  have nd: "\<not> contains_dotdot ident"
    using assms(1) by (auto simp: image_view_def)
  obtain src where src: "files st ?path = Some src"
    using assms(1) nd by (auto simp: image_view_def Let_def isfile_def log_def split: if_splits)
  show ?thesis
  proof (cases "files st ?target")
    case (Some art)
    from image_view_hit [OF nd assms(2) src Some] assms(1) Some nd src
    show ?thesis by auto
  next
    case None
    let ?st2 = "st\<lparr>trace := trace st @ [IsFile ?path, IsFile ?target]\<rparr>"
    obtain pr st3 where p: "process E ?st2 ?path a ?target = (pr, st3)"
      by (cases "process E ?st2 ?path a ?target") auto
    from image_view_miss [OF nd assms(2) src None] assms(1) p
    obtain u where u: "pr = Inr u" and s: "send_file st3 ?target = (Inr r, st')"
      by (cases pr) auto
    from process_Inr [OF p [unfolded u]] obtain out where
      st3: "st3 = ?st2\<lparr>trace := trace ?st2 @ [ImageOpen ?path, ImageSave ?target],
                     files := (files ?st2)(?target \<mapsto> out)\<rparr>"
      by blast
    from s st3 have "r = Response out ''image/jpg''" and
      "st' = st\<lparr>files := (files st)(?target \<mapsto> out),
                  trace := trace st @ [IsFile ?path, IsFile ?target, ImageOpen ?path,
                              ImageSave ?target, SendFile ?target]\<rparr>"
      by (auto simp: send_file_def log_def)
    with None nd src show ?thesis by blast
  qed
qed

lemma image_view_keeps_files:
  assumes "image_view E st ident a = (res, st')" "files st p = Some bs"
  shows "files st' p = Some bs"
proof -
  let ?path = "os_path_join (images_path E) ident"
  let ?target = "target_path E ident a"
  let ?st2 = "st\<lparr>trace := trace st @ [IsFile ?path, IsFile ?target]\<rparr>"
  consider (early) "contains_dotdot ident \<or> files st ?path = None \<or> a = [] \<or> files st ?target \<noteq> None"
    | (miss) src where "\<not> contains_dotdot ident" "files st ?path = Some src" "a \<noteq> []"
        "files st ?target = None"
    by (cases "files st ?path") auto
  then show ?thesis
  proof cases
    case early
    with assms show ?thesis
      by (auto simp: image_view_def Let_def isfile_def log_def send_file_def
          split: if_splits option.splits)
  next
    case miss
    then have neq: "p \<noteq> ?target" using assms(2) by auto
    obtain pr st3 where p: "process E ?st2 ?path a ?target = (pr, st3)"
      by (cases "process E ?st2 ?path a ?target") auto
    have f3: "files st3 p = Some bs"
    proof (cases pr)
      case (Inl e)
      with process_Inl p assms(2) show ?thesis by fastforce
    next
      case (Inr u)
      from process_Inr [OF p [unfolded Inr]] neq assms(2) show ?thesis by auto
    qed
    from image_view_miss [OF miss(1) miss(3) miss(2) miss(4)] assms(1) p
    have "(res, st') = (case pr of Inl e \<Rightarrow> (Inl e, st3) | Inr u \<Rightarrow> send_file st3 ?target)"
      by simp
    with f3 show ?thesis
      by (cases pr) (auto simp: send_file_def log_def split: option.splits)
  qed
qed

lemmas demo_simps =
  demo_def demo_open_def demo_resize_def demo_crop_def demo_rotate_def demo_save_def st0_def
  image_view_def process_def transform_def resize_stage_def crop_stage_def rotate_stage_def
  flip_stage_def send_file_def isfile_def log_def lift_def Let_def
  images_path_def cached_path_def os_path_join_def target_path_def identity_def
  hex_def hex2_def hex_digit_def utf8_def utf8_char_def
  json_dumps_def json_pair_def json_string_def json_char_def
  given_def args_get_def args_item_def py_int_def parse_int_def max_str_digits_def strip_def
  is_space_def is_digit_def truediv_small trunc_to_double_div

subsection \<open>Path traversal\<close>

text \<open>
  C9. An identifier with \<^verbatim>\<open>..\<close> in it fails with the error of the \<^verbatim>\<open>assert\<close>, which is
  the kind \<^verbatim>\<open>InvalidReference\<close>, whatever the query and the file system are; the state
  comes back as it was, so no call has touched the file system.
\<close>

theorem traversal_rejected_before_access:
  assumes "ident = p @ ''..'' @ s"
  shows "image_view E st ident a = (Inl AssertionError, st) \<and>
    kind_of AssertionError = Some InvalidReference"
  using assms contains_dotdot_append [of p s] by (simp add: image_view_def)

theorem traversal_rejected_before_access_witness:
  "''../../etc/passwd'' = [] @ ''..'' @ ''/../etc/passwd'' \<and>
   image_view demo st0 ''../../etc/passwd'' [(''w'', ''100'')] = (Inl AssertionError, st0)"
  using traversal_rejected_before_access [of "''../../etc/passwd''" "[]" "''/../etc/passwd''" demo st0
      "[(''w'', ''100'')]"]
  by simp

subsection \<open>The original, served as it is\<close>

text \<open>
  C3. With an empty query mapping and a stored original, the response is the bytes of
  the original. The only calls on the file system are the test for the original and
  its delivery: no cache path is looked up or written, the files are as before, and the
  result does not depend on the hash or the image library, so no key is derived.
\<close>

theorem empty_request_serves_original:
  assumes "\<not> contains_dotdot ident"
    and "files st (os_path_join (images_path E) ident) = Some src"
    and "root E' = root E"
  shows "image_view E st ident [] =
      (Inr (Response src ''image/jpg''),
       st\<lparr>trace := trace st @ [IsFile (os_path_join (images_path E) ident),
                                SendFile (os_path_join (images_path E) ident)]\<rparr>) \<and>
    files (snd (image_view E st ident [])) = files st \<and>
    image_view E' st ident [] = image_view E st ident []"
proof -
  have p: "images_path E' = images_path E"
    using assms(3) by (simp add: images_path_def)
  show ?thesis
    using image_view_original [OF assms(1) assms(2)]
      image_view_original [OF assms(1), of st E' src] assms(2) p
    by simp
qed

theorem empty_request_serves_original_witness:
  "\<not> contains_dotdot ''cat.jpg'' \<and>
   files st0 (os_path_join (images_path demo) ''cat.jpg'') = Some [CHR 0x05, CHR 0x03, CHR ''x''] \<and>
   image_view demo st0 ''cat.jpg'' [] =
     (Inr (Response [CHR 0x05, CHR 0x03, CHR ''x''] ''image/jpg''),
      st0\<lparr>trace := [IsFile ''/srv/images/cat.jpg'', SendFile ''/srv/images/cat.jpg'']\<rparr>)"
proof -
  have a: "\<not> contains_dotdot ''cat.jpg''" by simp
  have b: "files st0 (os_path_join (images_path demo) ''cat.jpg'') = Some [CHR 0x05, CHR 0x03, CHR ''x'']"
    by (simp add: st0_def demo_def images_path_def os_path_join_def)
  have c: "os_path_join (images_path demo) ''cat.jpg'' = ''/srv/images/cat.jpg''"
    by (simp add: demo_def images_path_def os_path_join_def)
  have d: "trace st0 = []" by (simp add: st0_def)
  show ?thesis
    using a b empty_request_serves_original [OF a b, of demo] by (simp add: c d)
qed

subsection \<open>The cache\<close>

text \<open>
  C2. For a query mapping that is not empty: a successful request that finds no
  artifact under its key writes one, once (one \<^verbatim>\<open>save\<close> in the trace), and answers with
  it; a request that finds an artifact answers with the stored bytes and neither opens
  the original nor saves; so the same request, repeated after a success, gets the same
  bytes without a second run of the pipeline. No request changes or removes a file that
  is there, so an artifact stays as it was written.
\<close>

theorem cache_written_once_then_served:
  assumes "a \<noteq> []"
    and "path = os_path_join (images_path E) ident"
    and "target = target_path E ident a"
  shows
    "(files st target = None \<and> image_view E st ident a = (Inr r, st') \<longrightarrow>
       (\<exists>out. r = Response out ''image/jpg'' \<and>
          files st' = (files st)(target \<mapsto> out) \<and>
          trace st' = trace st @ [IsFile path, IsFile target, ImageOpen path,
                                 ImageSave target, SendFile target])) \<and>
     (\<not> contains_dotdot ident \<and> files st path = Some src \<and> files st target = Some art \<longrightarrow>
       image_view E st ident a =
         (Inr (Response art ''image/jpg''),
          st\<lparr>trace := trace st @ [IsFile path, IsFile target, SendFile target]\<rparr>)) \<and>
     (image_view E st ident a = (Inr r, st') \<longrightarrow>
       image_view E st' ident a =
         (Inr r, st'\<lparr>trace := trace st' @ [IsFile path, IsFile target, SendFile target]\<rparr>)) \<and>
     (image_view E st ident a = (res, st'') \<and> files st q = Some bs \<longrightarrow> files st'' q = Some bs)"
proof (intro conjI impI)
  assume h: "files st target = None \<and> image_view E st ident a = (Inr r, st')"
  from image_view_Inr_cases [of E st ident a r st'] h assms
  show "\<exists>out. r = Response out ''image/jpg'' \<and>
          files st' = (files st)(target \<mapsto> out) \<and>
          trace st' = trace st @ [IsFile path, IsFile target, ImageOpen path,
                                 ImageSave target, SendFile target]"
    by auto
next
  assume "\<not> contains_dotdot ident \<and> files st path = Some src \<and> files st target = Some art"
  then show "image_view E st ident a =
         (Inr (Response art ''image/jpg''),
          st\<lparr>trace := trace st @ [IsFile path, IsFile target, SendFile target]\<rparr>)"
    using image_view_hit [of ident a st E src art] assms by simp
next
  assume h: "image_view E st ident a = (Inr r, st')"
  from image_view_Inr_cases [OF h assms(1)]
  have nd: "\<not> contains_dotdot ident"
    and "\<exists>src. files st path = Some src"
    and t: "files st' target = Some (body r)"
    and r: "r = Response (body r) ''image/jpg''"
    using assms by auto
  then obtain src where "files st path = Some src" by blast
  with h have s: "files st' path = Some src"
    using image_view_keeps_files by blast
  from image_view_hit [OF nd assms(1), of st' E src "body r"] s t r assms
  show "image_view E st' ident a =
         (Inr r, st'\<lparr>trace := trace st' @ [IsFile path, IsFile target, SendFile target]\<rparr>)"
    by simp
next
  assume "image_view E st ident a = (res, st'') \<and> files st q = Some bs"
  then show "files st'' q = Some bs"
    using image_view_keeps_files by blast
qed

theorem cache_written_once_then_served_witness:
  "[(''h'', ''1'')] \<noteq> [] \<and>
   files st0 ''/srv/cached/12.jpg'' = None \<and>
   image_view demo st0 ''cat.jpg'' [(''h'', ''1'')] =
     (Inr (Response (''JPEGx'') ''image/jpg''),
      \<lparr>files = [''/srv/images/cat.jpg'' \<mapsto> [CHR 0x05, CHR 0x03, CHR ''x''],
                ''/srv/cached/12.jpg'' \<mapsto> ''JPEGx''],
       trace = [IsFile ''/srv/images/cat.jpg'', IsFile ''/srv/cached/12.jpg'',
                ImageOpen ''/srv/images/cat.jpg'', ImageSave ''/srv/cached/12.jpg'',
                SendFile ''/srv/cached/12.jpg'']\<rparr>) \<and>
   image_view demo
      \<lparr>files = [''/srv/images/cat.jpg'' \<mapsto> [CHR 0x05, CHR 0x03, CHR ''x''],
                ''/srv/cached/12.jpg'' \<mapsto> ''JPEGx''],
       trace = [IsFile ''/srv/images/cat.jpg'', IsFile ''/srv/cached/12.jpg'',
                ImageOpen ''/srv/images/cat.jpg'', ImageSave ''/srv/cached/12.jpg'',
                SendFile ''/srv/cached/12.jpg'']\<rparr>
      ''cat.jpg'' [(''h'', ''1'')] =
     (Inr (Response (''JPEGx'') ''image/jpg''),
      \<lparr>files = [''/srv/images/cat.jpg'' \<mapsto> [CHR 0x05, CHR 0x03, CHR ''x''],
                ''/srv/cached/12.jpg'' \<mapsto> ''JPEGx''],
       trace = [IsFile ''/srv/images/cat.jpg'', IsFile ''/srv/cached/12.jpg'',
                ImageOpen ''/srv/images/cat.jpg'', ImageSave ''/srv/cached/12.jpg'',
                SendFile ''/srv/cached/12.jpg'', IsFile ''/srv/images/cat.jpg'',
                IsFile ''/srv/cached/12.jpg'', SendFile ''/srv/cached/12.jpg'']\<rparr>)"
proof -
  let ?a = "[(''h'', ''1'')]"
  let ?st1 = "\<lparr>files = [''/srv/images/cat.jpg'' \<mapsto> [CHR 0x05, CHR 0x03, CHR ''x''],
                ''/srv/cached/12.jpg'' \<mapsto> ''JPEGx''],
       trace = [IsFile ''/srv/images/cat.jpg'', IsFile ''/srv/cached/12.jpg'',
                ImageOpen ''/srv/images/cat.jpg'', ImageSave ''/srv/cached/12.jpg'',
                SendFile ''/srv/cached/12.jpg'']\<rparr>"
  have ne: "?a \<noteq> []" by simp
  have p: "''/srv/images/cat.jpg'' = os_path_join (images_path demo) ''cat.jpg''"
    by (simp add: demo_def images_path_def os_path_join_def)
  have t: "''/srv/cached/12.jpg'' = target_path demo ''cat.jpg'' ?a"
    by (simp add: demo_simps)
  have m: "files st0 ''/srv/cached/12.jpg'' = None"
    by (simp add: st0_def)
  have e: "image_view demo st0 ''cat.jpg'' ?a =
     (Inr (Response (''JPEGx'') ''image/jpg''), ?st1)"
    by (simp add: demo_simps)
  from cache_written_once_then_served [OF ne p t, of st0 "Response (''JPEGx'') ''image/jpg''" ?st1] e
  have "image_view demo ?st1 ''cat.jpg'' ?a =
     (Inr (Response (''JPEGx'') ''image/jpg''),
      ?st1\<lparr>trace := trace ?st1 @ [IsFile ''/srv/images/cat.jpg'', IsFile ''/srv/cached/12.jpg'',
          SendFile ''/srv/cached/12.jpg'']\<rparr>)"
    by blast
  with ne m e show ?thesis by simp
qed

subsection \<open>Keys the blocks do not read\<close>

lemma absent_key:
  assumes "k \<notin> fst ` set a"
  shows "args_get a k = None \<and> \<not> given a k"
proof -
  have "map_of a k = None"
    using assms by (simp add: map_of_eq_None_iff)
  then show ?thesis
    by (simp add: args_get_def given_def)
qed

lemma transform_identity:
  assumes "\<not> given a ''w''" "\<not> given a ''h''" "\<not> given a ''rot''"
    and "args_get a ''format'' \<noteq> Some ''square''"
    and "args_get a ''flip'' \<notin> {Some ''h'', Some ''v'', Some ''hv''}"
  shows "resize_stage E a img = Inr img \<and> crop_stage E a img = Inr img \<and>
    rotate_stage E a img = Inr img \<and> flip_stage E a img = Inr img \<and>
    transform E a img = Inr img"
  using assms
  by (simp add: resize_stage_def crop_stage_def rotate_stage_def flip_stage_def transform_def)

text \<open>
  C10. A query mapping that is not empty and has none of the keys \<^verbatim>\<open>w\<close>, \<^verbatim>\<open>h\<close>, \<^verbatim>\<open>rot\<close>,
  \<^verbatim>\<open>flip\<close>, and no \<^verbatim>\<open>format=square\<close>, is not answered with the original file: the key is
  derived from these parameters, the original is decoded, each block returns the image
  it was given, and the answer is what the encoder makes of the decoded image, stored
  under the key.
\<close>

theorem unrecognized_params_reencode:
  assumes "a \<noteq> []"
    and "\<forall>k \<in> set [''w'', ''h'', ''rot'', ''flip'']. k \<notin> fst ` set a"
    and "args_get a ''format'' \<noteq> Some ''square''"
    and "\<not> contains_dotdot ident"
    and "files st (os_path_join (images_path E) ident) = Some src"
    and "files st (target_path E ident a) = None"
    and "Image_open E src = Inr img"
    and "Image_save E img = Inr out"
  shows "resize_stage E a img = Inr img \<and> crop_stage E a img = Inr img \<and>
    rotate_stage E a img = Inr img \<and> flip_stage E a img = Inr img \<and>
    transform E a img = Inr img \<and>
    target_path E ident a =
      os_path_join (cached_path E)
        (hex (md5_digest E (utf8 (ident @ ''-'' @ json_dumps a)))) @ ''.jpg'' \<and>
    image_view E st ident a =
      (Inr (Response out ''image/jpg''),
       st\<lparr>trace := trace st @ [IsFile (os_path_join (images_path E) ident),
                                IsFile (target_path E ident a),
                                ImageOpen (os_path_join (images_path E) ident),
                                ImageSave (target_path E ident a),
                                SendFile (target_path E ident a)],
          files := (files st)(target_path E ident a \<mapsto> out)\<rparr>)"
proof -
  let ?path = "os_path_join (images_path E) ident"
  let ?target = "target_path E ident a"
  let ?st2 = "st\<lparr>trace := trace st @ [IsFile ?path, IsFile ?target]\<rparr>"
  have k: "\<not> given a ''w''" "\<not> given a ''h''" "\<not> given a ''rot''" "args_get a ''flip'' = None"
    using assms(2) absent_key [of _ a] by simp_all
  have id: "resize_stage E a img = Inr img \<and> crop_stage E a img = Inr img \<and>
    rotate_stage E a img = Inr img \<and> flip_stage E a img = Inr img \<and>
    transform E a img = Inr img"
    using transform_identity [OF k(1) k(2) k(3) assms(3)] k(4) by simp
  have key: "?target =
      os_path_join (cached_path E)
        (hex (md5_digest E (utf8 (ident @ ''-'' @ json_dumps a)))) @ ''.jpg''"
    by (simp add: target_path_def identity_def)
  have "process E ?st2 ?path a ?target =
    (Inr (), ?st2\<lparr>files := (files ?st2)(?target \<mapsto> out),
                 trace := trace ?st2 @ [ImageOpen ?path, ImageSave ?target]\<rparr>)"
    using process_success [of ?st2 ?path src E img a img out ?target] assms(5,7,8) id by simp
  then have "image_view E st ident a =
      (Inr (Response out ''image/jpg''),
       st\<lparr>trace := trace st @ [IsFile ?path, IsFile ?target, ImageOpen ?path,
                                ImageSave ?target, SendFile ?target],
          files := (files st)(?target \<mapsto> out)\<rparr>)"
    using image_view_miss [OF assms(4) assms(1) assms(5) assms(6)]
    by (simp add: send_file_def log_def)
  with id key show ?thesis by blast
qed

theorem unrecognized_params_reencode_witness:
  "[(''foo'', ''bar'')] \<noteq> [] \<and>
   files st0 ''/srv/images/cat.jpg'' = Some [CHR 0x05, CHR 0x03, CHR ''x''] \<and>
   fst (image_view demo st0 ''cat.jpg'' [(''foo'', ''bar'')]) = Inr (Response ''JPEGx'' ''image/jpg'') \<and>
   files (snd (image_view demo st0 ''cat.jpg'' [(''foo'', ''bar'')]))
     (target_path demo ''cat.jpg'' [(''foo'', ''bar'')]) = Some ''JPEGx'' \<and>
   ''JPEGx'' \<noteq> [CHR 0x05, CHR 0x03, CHR ''x'']"
proof -
  let ?a = "[(''foo'', ''bar'')]"
  have 1: "?a \<noteq> []" by simp
  have 2: "\<forall>k \<in> set [''w'', ''h'', ''rot'', ''flip'']. k \<notin> fst ` set ?a" by simp
  have 3: "args_get ?a ''format'' \<noteq> Some ''square''" by (simp add: args_get_def)
  have 4: "\<not> contains_dotdot ''cat.jpg''" by simp
  have p: "os_path_join (images_path demo) ''cat.jpg'' = ''/srv/images/cat.jpg''"
    by (simp add: demo_def images_path_def os_path_join_def)
  have 5: "files st0 (os_path_join (images_path demo) ''cat.jpg'') = Some [CHR 0x05, CHR 0x03, CHR ''x'']"
    by (simp add: p) (simp add: st0_def)
  have 6: "files st0 (target_path demo ''cat.jpg'' ?a) = None"
    by (simp add: demo_simps)
  have 7: "Image_open demo [CHR 0x05, CHR 0x03, CHR ''x''] = Inr (Picture (5, 3) ''x'')"
    by (simp add: demo_def demo_open_def)
  have 8: "Image_save demo (Picture (5, 3) ''x'') = Inr ''JPEGx''"
    by (simp add: demo_def demo_save_def)
  from unrecognized_params_reencode [OF 1 2 3 4 5 6 7 8] 5 p
  show ?thesis by simp
qed

subsection \<open>The size block\<close>

lemma floor_rat_numeral: "\<lfloor>numeral m / numeral n :: rat\<rfloor> = numeral m div numeral n"
  by (metis floor_divide_of_int_eq of_int_numeral)

lemma trunc_quotient: "0 \<le> n \<Longrightarrow> 0 < d \<Longrightarrow> trunc (of_int n / of_int d) = n div d"
  by (simp add: trunc_def floor_divide_of_int_eq)

lemma new_size_resize:
  "new_size E a img = Some sz \<Longrightarrow> resize_stage E a img = lift (Image_resize E img sz)"
  by (auto simp: new_size_def resize_stage_def py_int_def Let_def
      split: if_splits option.splits sum.splits)

lemma new_size_height_only:
  assumes "given a ''h''" "\<not> given a ''w''" "parse_int (args_item a ''h'') = Some nh"
    and "Image_size E img = (ow, oh)" "oh \<noteq> 0" "\<bar>nh * ow\<bar> < 2 ^ 53"
  shows "new_size E a img = Some (trunc (of_int (nh * ow) / of_int oh), nh)"
  using assms by (simp add: new_size_def truediv_small trunc_to_double)

lemma new_size_width_only:
  assumes "given a ''w''" "\<not> given a ''h''" "parse_int (args_item a ''w'') = Some nw"
    and "Image_size E img = (ow, oh)" "ow \<noteq> 0" "\<bar>nw * oh\<bar> < 2 ^ 53"
  shows "new_size E a img = Some (nw, trunc (of_int (nw * oh) / of_int ow))"
  using assms by (simp add: new_size_def truediv_small trunc_to_double)

lemma resize_result_size:
  assumes "pillow_sizes E" "new_size E a img = Some sz" "resize_stage E a img = Inr img'"
  shows "Image_size E img' = sz"
proof -
  from new_size_resize [OF assms(2)] assms(3)
  have "Image_resize E img sz = Inr img'"
    by (cases "Image_resize E img sz") (simp_all add: lift_def)
  with assms(1) show ?thesis
    unfolding pillow_sizes_def by blast
qed

text \<open>
  C4, as the code has it. With a height alone the size block asks for the width
  \<^verbatim>\<open>int(new_height * original_width / original_height)\<close> and for the height given; with
  a width alone it asks for the width given and the height computed in the same way.
  As long as the product is below \<open>2 ^ 53\<close> in absolute value, this is the exact
  quotient cut towards zero, and not rounded. (From there on the quotient is rounded to
  a double before the cut, and beyond the doubles the division raises.) Under the
  library's contract the result has the size asked for. For a quotient that is not
  negative the cut is the integer quotient, so a 200 by 100 original with \<^verbatim>\<open>h=50\<close> gets
  the width 100.
\<close>

theorem resize_one_side_truncates:
  assumes "Image_size E img = (ow, oh)" and "ow \<noteq> 0" and "oh \<noteq> 0"
  shows
    "(given a ''h'' \<and> \<not> given a ''w'' \<and> parse_int (args_item a ''h'') = Some nh \<and>
      \<bar>nh * ow\<bar> < 2 ^ 53 \<longrightarrow>
        resize_stage E a img =
          lift (Image_resize E img (trunc (of_int (nh * ow) / of_int oh), nh)) \<and>
        (\<forall>img'. pillow_sizes E \<and> resize_stage E a img = Inr img' \<longrightarrow>
           Image_size E img' = (trunc (of_int (nh * ow) / of_int oh), nh))) \<and>
     (given a ''w'' \<and> \<not> given a ''h'' \<and> parse_int (args_item a ''w'') = Some nw \<and>
      \<bar>nw * oh\<bar> < 2 ^ 53 \<longrightarrow>
        resize_stage E a img =
          lift (Image_resize E img (nw, trunc (of_int (nw * oh) / of_int ow))) \<and>
        (\<forall>img'. pillow_sizes E \<and> resize_stage E a img = Inr img' \<longrightarrow>
           Image_size E img' = (nw, trunc (of_int (nw * oh) / of_int ow)))) \<and>
     (0 \<le> n \<and> 0 < d \<longrightarrow> trunc (of_int n / of_int d) = n div d)"
proof (intro conjI impI allI)
  assume h: "given a ''h'' \<and> \<not> given a ''w'' \<and> parse_int (args_item a ''h'') = Some nh \<and>
      \<bar>nh * ow\<bar> < 2 ^ 53"
  then have n: "new_size E a img = Some (trunc (of_int (nh * ow) / of_int oh), nh)"
    using assms by (simp add: new_size_height_only)
  then show "resize_stage E a img =
      lift (Image_resize E img (trunc (of_int (nh * ow) / of_int oh), nh))"
    by (rule new_size_resize)
  fix img'
  assume "pillow_sizes E \<and> resize_stage E a img = Inr img'"
  then show "Image_size E img' = (trunc (of_int (nh * ow) / of_int oh), nh)"
    using resize_result_size [OF _ n] by simp
next
  assume w: "given a ''w'' \<and> \<not> given a ''h'' \<and> parse_int (args_item a ''w'') = Some nw \<and>
      \<bar>nw * oh\<bar> < 2 ^ 53"
  then have n: "new_size E a img = Some (nw, trunc (of_int (nw * oh) / of_int ow))"
    using assms by (simp add: new_size_width_only)
  then show "resize_stage E a img =
      lift (Image_resize E img (nw, trunc (of_int (nw * oh) / of_int ow)))"
    by (rule new_size_resize)
  fix img'
  assume "pillow_sizes E \<and> resize_stage E a img = Inr img'"
  then show "Image_size E img' = (nw, trunc (of_int (nw * oh) / of_int ow))"
    using resize_result_size [OF _ n] by simp
next
  assume "0 \<le> n \<and> 0 < d"
  then show "trunc (of_int n / of_int d) = n div d"
    by (simp add: trunc_quotient)
qed

theorem resize_one_side_truncates_witness:
  "Image_size demo (Picture (200, 100) ''x'') = (200, 100) \<and>
   given [(''h'', ''50'')] ''h'' \<and> parse_int (args_item [(''h'', ''50'')] ''h'') = Some 50 \<and>
   trunc (of_int (50 * 200) / of_int 100) = 100 \<and>
   resize_stage demo [(''h'', ''50'')] (Picture (200, 100) ''x'') = Inr (Picture (100, 50) ''x'') \<and>
   resize_stage demo [(''w'', ''50'')] (Picture (200, 100) ''x'') = Inr (Picture (50, 25) ''x'')"
proof -
  let ?img = "Picture (200, 100) ''x''"
  have s: "Image_size demo ?img = (200, 100)" by (simp add: demo_def)
  have g: "given [(''h'', ''50'')] ''h'' \<and> \<not> given [(''h'', ''50'')] ''w'' \<and>
      parse_int (args_item [(''h'', ''50'')] ''h'') = Some 50"
    by (simp add: given_def args_get_def args_item_def parse_int_def max_str_digits_def
        strip_def is_space_def is_digit_def)
  have g': "given [(''w'', ''50'')] ''w'' \<and> \<not> given [(''w'', ''50'')] ''h'' \<and>
      parse_int (args_item [(''w'', ''50'')] ''w'') = Some 50"
    by (simp add: given_def args_get_def args_item_def parse_int_def max_str_digits_def
        strip_def is_space_def is_digit_def)
  have t: "trunc (of_int (50 * 200) / of_int 100) = 100"
    using resize_one_side_truncates [OF s, of "[]" 0 0 "50 * 200" 100] by simp
  have r: "Image_resize demo ?img (100, 50) = Inr (Picture (100, 50) ''x'')"
      "Image_resize demo ?img (50, 25) = Inr (Picture (50, 25) ''x'')"
    by (simp_all add: demo_def demo_resize_def)
  have t': "trunc (of_int (50 * 100) / of_int 200) = 25"
    using resize_one_side_truncates [OF s, of "[]" 0 0 "50 * 100" 200] by simp
  from resize_one_side_truncates [OF s, of "[(''h'', ''50'')]" 50 0 0 1] g t r
  have 1: "resize_stage demo [(''h'', ''50'')] ?img = Inr (Picture (100, 50) ''x'')"
    by (simp add: lift_def)
  from resize_one_side_truncates [OF s, of "[(''w'', ''50'')]" 0 50 0 1] g' t' r
  have 2: "resize_stage demo [(''w'', ''50'')] ?img = Inr (Picture (50, 25) ''x'')"
    by (simp add: lift_def)
  from s g t 1 2 show ?thesis by simp
qed

text \<open>
  The claim C4 as it is written, with the rounded width
  \<^verbatim>\<open>round(new_height * original_width / original_height)\<close>, fails on a 5 by 3 original
  with \<^verbatim>\<open>h=1\<close>: the rounded width is 2, and the size block asks for the width 1.
\<close>

theorem resize_rounded_width_counterexample:
  "spec_new_width 1 5 3 = 2 \<and>
   new_size demo [(''h'', ''1'')] (Picture (5, 3) ''x'') = Some (1, 1) \<and>
   new_size demo [(''h'', ''1'')] (Picture (5, 3) ''x'') \<noteq> Some (spec_new_width 1 5 3, 1) \<and>
   resize_stage demo [(''h'', ''1'')] (Picture (5, 3) ''x'') = Inr (Picture (1, 1) ''x'')"
  by (simp add: spec_new_width_def py_round_def new_size_def demo_simps floor_rat_numeral)

subsection \<open>The crop block\<close>

lemma half_difference:
  assumes "h \<le> w"
  shows "trunc (of_int w / 2 - of_int h / 2) = (w - h) div 2"
proof -
  have e: "(of_int w / 2 - of_int h / 2 :: rat) = of_int (w - h) / of_int 2"
    by (simp add: diff_divide_distrib)
  have "trunc (of_int (w - h) / of_int 2) = (w - h) div 2"
    using assms by (intro trunc_quotient) simp_all
  then show ?thesis
    by (simp only: e)
qed

lemma half_sum:
  assumes "h \<le> w" "0 \<le> h"
  shows "trunc (of_int w / 2 + of_int h / 2) = (w - h) div 2 + h"
proof -
  have e: "(of_int w / 2 + of_int h / 2 :: rat) = of_int (w + h) / of_int 2"
    by (simp add: add_divide_distrib)
  have "trunc (of_int (w + h) / of_int 2) = (w + h) div 2"
    using assms by (intro trunc_quotient) simp_all
  then have "trunc (of_int w / 2 + of_int h / 2) = (w + h) div 2"
    by (simp only: e)
  also have "(w + h) div 2 = (w - h) div 2 + h"
    by presburger
  finally show ?thesis .
qed

lemma crop_stage_wide:
  assumes "args_get a ''format'' = Some ''square''" "Image_size E img = (w, h)" "h < w" "0 \<le> h"
  shows "crop_stage E a img = lift (Image_crop E img ((w - h) div 2, 0, (w - h) div 2 + h, h))"
  using assms by (simp add: crop_stage_def Let_def half_difference half_sum)

lemma crop_stage_tall:
  assumes "args_get a ''format'' = Some ''square''" "Image_size E img = (w, h)" "w < h" "0 \<le> w"
  shows "crop_stage E a img = lift (Image_crop E img (0, (h - w) div 2, w, (h - w) div 2 + w))"
  using assms by (simp add: crop_stage_def Let_def half_difference half_sum)

lemma crop_result_size:
  assumes "pillow_sizes E" "lift (Image_crop E img (l, t, r, b)) = Inr img'" "l \<le> r" "t \<le> b"
  shows "Image_size E img' = (r - l, b - t)"
proof -
  from assms(2) have "Image_crop E img (l, t, r, b) = Inr img'"
    by (cases "Image_crop E img (l, t, r, b)") (simp_all add: lift_def)
  with assms(1,3,4) show ?thesis
    unfolding pillow_sizes_def by blast
qed

text \<open>
  C5. With \<^verbatim>\<open>format=square\<close> and an image of width \<open>w\<close> and height \<open>h\<close>: when \<open>w > h\<close> the
  crop block asks for the box with \<open>left = int(w / 2 - h / 2)\<close>, which is
  \<open>(w - h) div 2\<close>, \<open>right = left + h\<close>, \<open>top = 0\<close> and \<open>bottom = h\<close>, and the result is
  \<open>h\<close> by \<open>h\<close>; when \<open>h > w\<close> it asks for the same with the sides exchanged; when
  \<open>w = h\<close> it returns the image it was given.
\<close>

theorem square_crop_centered:
  assumes "args_get a ''format'' = Some ''square''"
    and "Image_size E img = (w, h)" and "0 \<le> w" and "0 \<le> h"
  shows
    "(h < w \<longrightarrow>
        crop_stage E a img =
          lift (Image_crop E img (trunc (of_int w / 2 - of_int h / 2), 0,
                                  trunc (of_int w / 2 - of_int h / 2) + h, h)) \<and>
        trunc (of_int w / 2 - of_int h / 2) = (w - h) div 2 \<and>
        (\<forall>img'. pillow_sizes E \<and> crop_stage E a img = Inr img' \<longrightarrow> Image_size E img' = (h, h))) \<and>
     (w < h \<longrightarrow>
        crop_stage E a img =
          lift (Image_crop E img (0, trunc (of_int h / 2 - of_int w / 2), w,
                                  trunc (of_int h / 2 - of_int w / 2) + w)) \<and>
        trunc (of_int h / 2 - of_int w / 2) = (h - w) div 2 \<and>
        (\<forall>img'. pillow_sizes E \<and> crop_stage E a img = Inr img' \<longrightarrow> Image_size E img' = (w, w))) \<and>
     (w = h \<longrightarrow> crop_stage E a img = Inr img)"
proof (intro conjI impI allI)
  assume lt: "h < w"
  then have d: "trunc (of_int w / 2 - of_int h / 2) = (w - h) div 2"
    by (simp add: half_difference)
  then show "trunc (of_int w / 2 - of_int h / 2) = (w - h) div 2" .
  from crop_stage_wide [OF assms(1,2) lt assms(4)] d
  show c: "crop_stage E a img =
      lift (Image_crop E img (trunc (of_int w / 2 - of_int h / 2), 0,
                              trunc (of_int w / 2 - of_int h / 2) + h, h))"
    by simp
  fix img'
  assume "pillow_sizes E \<and> crop_stage E a img = Inr img'"
  with c d lt assms(4) have "Image_size E img' = ((w - h) div 2 + h - (w - h) div 2, h - 0)"
    by (intro crop_result_size [of E img]) simp_all
  then show "Image_size E img' = (h, h)" by simp
next
  assume lt: "w < h"
  then have d: "trunc (of_int h / 2 - of_int w / 2) = (h - w) div 2"
    by (simp add: half_difference)
  then show "trunc (of_int h / 2 - of_int w / 2) = (h - w) div 2" .
  from crop_stage_tall [OF assms(1,2) lt assms(3)] d
  show c: "crop_stage E a img =
      lift (Image_crop E img (0, trunc (of_int h / 2 - of_int w / 2), w,
                              trunc (of_int h / 2 - of_int w / 2) + w))"
    by simp
  fix img'
  assume "pillow_sizes E \<and> crop_stage E a img = Inr img'"
  with c d lt assms(3) have "Image_size E img' = (w - 0, (h - w) div 2 + w - (h - w) div 2)"
    by (intro crop_result_size [of E img]) simp_all
  then show "Image_size E img' = (w, w)" by simp
next
  assume "w = h"
  with assms(1,2) show "crop_stage E a img = Inr img"
    by (simp add: crop_stage_def)
qed

theorem square_crop_centered_witness:
  "args_get [(''format'', ''square'')] ''format'' = Some ''square'' \<and>
   Image_size demo (Picture (300, 100) ''x'') = (300, 100) \<and>
   trunc (of_int 300 / 2 - of_int 100 / 2) = 100 \<and>
   crop_stage demo [(''format'', ''square'')] (Picture (300, 100) ''x'') =
     lift (Image_crop demo (Picture (300, 100) ''x'') (100, 0, 200, 100)) \<and>
   crop_stage demo [(''format'', ''square'')] (Picture (300, 100) ''x'') =
     Inr (Picture (100, 100) ''x'') \<and>
   crop_stage demo [(''format'', ''square'')] (Picture (100, 300) ''x'') =
     lift (Image_crop demo (Picture (100, 300) ''x'') (0, 100, 100, 200)) \<and>
   crop_stage demo [(''format'', ''square'')] (Picture (100, 100) ''x'') =
     Inr (Picture (100, 100) ''x'')"
proof -
  let ?a = "[(''format'', ''square'')]"
  have f: "args_get ?a ''format'' = Some ''square''" by (simp add: args_get_def)
  have s: "Image_size demo (Picture (300, 100) ''x'') = (300, 100)"
    "Image_size demo (Picture (100, 300) ''x'') = (100, 300)"
    "Image_size demo (Picture (100, 100) ''x'') = (100, 100)"
    by (simp_all add: demo_def)
  have c: "Image_crop demo (Picture (300, 100) ''x'') (100, 0, 200, 100) =
      Inr (Picture (100, 100) ''x'')"
    by (simp add: demo_def demo_crop_def)
  from square_crop_centered [OF f s(1)] square_crop_centered [OF f s(2)]
    square_crop_centered [OF f s(3)] f s c
  show ?thesis by (simp add: lift_def)
qed

subsection \<open>The rotation block\<close>

text \<open>
  C6, as the code has it. With a rotation value that parses, the rotation block calls
  the library's \<^verbatim>\<open>rotate\<close> with that angle and with \<^verbatim>\<open>expand\<close> off: the canvas of the
  result is the canvas of the input, and does not grow.
\<close>

theorem rotate_keeps_canvas:
  assumes "given a ''rot''" and "parse_int (args_item a ''rot'') = Some angle"
  shows "rotate_stage E a img = lift (Image_rotate E img angle False) \<and>
    (\<forall>img'. pillow_sizes E \<and> rotate_stage E a img = Inr img' \<longrightarrow>
       Image_size E img' = Image_size E img)"
proof (intro conjI allI impI)
  show r: "rotate_stage E a img = lift (Image_rotate E img angle False)"
    using assms by (simp add: rotate_stage_def py_int_def)
  fix img'
  assume h: "pillow_sizes E \<and> rotate_stage E a img = Inr img'"
  with r have "Image_rotate E img angle False = Inr img'"
    by (cases "Image_rotate E img angle False") (simp_all add: lift_def)
  with h show "Image_size E img' = Image_size E img"
    unfolding pillow_sizes_def by blast
qed

theorem rotate_keeps_canvas_witness:
  "given [(''rot'', ''90'')] ''rot'' \<and>
   parse_int (args_item [(''rot'', ''90'')] ''rot'') = Some 90 \<and>
   pillow_sizes demo \<and>
   rotate_stage demo [(''rot'', ''90'')] (Picture (200, 100) ''x'') = Inr (Picture (200, 100) ''x'') \<and>
   Image_size demo (Picture (200, 100) ''x'') = (200, 100)"
proof -
  have g: "given [(''rot'', ''90'')] ''rot''"
    by (simp add: given_def args_get_def)
  have p: "parse_int (args_item [(''rot'', ''90'')] ''rot'') = Some 90"
    by (simp add: args_get_def args_item_def parse_int_def max_str_digits_def strip_def is_space_def
        is_digit_def)
  have c: "pillow_sizes demo"
    by (auto simp: pillow_sizes_def demo_def demo_resize_def demo_crop_def demo_rotate_def
        split: if_splits)
  have r: "Image_rotate demo (Picture (200, 100) ''x'') 90 False = Inr (Picture (200, 100) ''x'')"
    by (simp add: demo_def demo_rotate_def)
  have s: "Image_size demo (Picture (200, 100) ''x'') = (200, 100)"
    by (simp add: demo_def)
  from rotate_keeps_canvas [OF g p, of demo "Picture (200, 100) ''x''"]
  have "rotate_stage demo [(''rot'', ''90'')] (Picture (200, 100) ''x'') =
      lift (Image_rotate demo (Picture (200, 100) ''x'') 90 False)"
    by (rule conjunct1)
  then have "rotate_stage demo [(''rot'', ''90'')] (Picture (200, 100) ''x'') =
      Inr (Picture (200, 100) ''x'')"
    by (simp only: r) (simp add: lift_def)
  with g p c s show ?thesis by blast
qed

text \<open>
  The claim C6 as it is written, with a canvas that grows to hold the rotated content,
  fails on a 200 by 100 image with \<^verbatim>\<open>rot=90\<close>: the block's result is 200 by 100, where
  the rotation with \<^verbatim>\<open>expand\<close> is 100 by 200.
\<close>

theorem rotate_expand_counterexample:
  "rotate_stage demo [(''rot'', ''90'')] (Picture (200, 100) ''x'') =
     lift (Image_rotate demo (Picture (200, 100) ''x'') 90 False) \<and>
   rotate_stage demo [(''rot'', ''90'')] (Picture (200, 100) ''x'') = Inr (Picture (200, 100) ''x'') \<and>
   lift (Image_rotate demo (Picture (200, 100) ''x'') 90 True) = Inr (Picture (100, 200) ''x'') \<and>
   rotate_stage demo [(''rot'', ''90'')] (Picture (200, 100) ''x'') \<noteq>
     lift (Image_rotate demo (Picture (200, 100) ''x'') 90 True)"
  by (simp add: demo_simps)

subsection \<open>Values that are no integers\<close>

lemma kind_InvalidParameter: "(kind_of e = Some InvalidParameter) = (\<exists>s. e = ValueError s)"
proof (cases e)
  case (PIL x)
  then show ?thesis by (cases x) simp_all
qed simp_all

lemma lift_no_ValueError: "lift r \<noteq> Inl (ValueError s)"
  by (cases r) (simp_all add: lift_def)

lemma resize_stage_ValueError:
  "(\<exists>s. resize_stage E a img = Inl (ValueError s)) = (unparsable a ''h'' \<or> unparsable a ''w'')"
  by (auto simp: resize_stage_def unparsable_def py_int_def truediv_def Let_def
      lift_no_ValueError split: option.splits)

lemma crop_stage_no_ValueError: "crop_stage E a img \<noteq> Inl (ValueError s)"
  by (simp add: crop_stage_def Let_def lift_no_ValueError)

lemma rotate_stage_ValueError:
  "(\<exists>s. rotate_stage E a img = Inl (ValueError s)) = unparsable a ''rot''"
  by (auto simp: rotate_stage_def unparsable_def py_int_def lift_no_ValueError
      split: option.splits)

lemma flip_stage_no_ValueError: "flip_stage E a img \<noteq> Inl (ValueError s)"
  by (auto simp: flip_stage_def lift_no_ValueError split: sum.splits)

lemma transform_ValueError:
  "(\<exists>s. transform E a img = Inl (ValueError s)) =
   (unparsable a ''h'' \<or> unparsable a ''w'' \<or>
    ((\<exists>img1 img2. resize_stage E a img = Inr img1 \<and> crop_stage E a img1 = Inr img2) \<and>
     unparsable a ''rot''))"
proof (cases "resize_stage E a img")
  case (Inl e)
  with resize_stage_ValueError [of E a img] show ?thesis
    by (auto simp: transform_def)
next
  case r: (Inr img1)
  with resize_stage_ValueError [of E a img]
  have n: "\<not> unparsable a ''h''" "\<not> unparsable a ''w''" by auto
  show ?thesis
  proof (cases "crop_stage E a img1")
    case (Inl e)
    with r n crop_stage_no_ValueError [of E a img1] show ?thesis
      by (auto simp: transform_def)
  next
    case c: (Inr img2)
    show ?thesis
    proof (cases "rotate_stage E a img2")
      case (Inl e)
      with r c n rotate_stage_ValueError [of E a img2] show ?thesis
        by (auto simp: transform_def)
    next
      case (Inr img3)
      with r c n rotate_stage_ValueError [of E a img2] flip_stage_no_ValueError [of E a img3]
      show ?thesis
        by (auto simp: transform_def)
    qed
  qed
qed

text \<open>
  C7, as the code has it. There is no separate normalization: \<^verbatim>\<open>int\<close> is called inside
  the blocks. The pipeline fails with the \<^verbatim>\<open>ValueError\<close> of \<^verbatim>\<open>int\<close>, the kind
  \<^verbatim>\<open>InvalidParameter\<close>, exactly when a value of \<^verbatim>\<open>h\<close> or \<^verbatim>\<open>w\<close> that is not empty is no
  integer literal, or the size and the crop block succeed and a value of \<^verbatim>\<open>rot\<close> that
  is not empty is no integer literal. An empty value counts as a missing one. The flip
  block never fails with this kind, and a flip value other than \<^verbatim>\<open>h\<close>, \<^verbatim>\<open>v\<close>, \<^verbatim>\<open>hv\<close>
  leaves the image as it is. In particular \<^verbatim>\<open>rot=abc\<close> alone fails with
  \<^verbatim>\<open>InvalidParameter\<close>.
\<close>

theorem invalid_parameter_exactly:
  "((\<exists>e. transform E a img = Inl e \<and> kind_of e = Some InvalidParameter) =
      (unparsable a ''h'' \<or> unparsable a ''w'' \<or>
       ((\<exists>img1 img2. resize_stage E a img = Inr img1 \<and> crop_stage E a img1 = Inr img2) \<and>
        unparsable a ''rot''))) \<and>
   (\<forall>e. flip_stage E a img = Inl e \<longrightarrow> kind_of e \<noteq> Some InvalidParameter) \<and>
   (args_get a ''flip'' \<notin> {Some ''h'', Some ''v'', Some ''hv''} \<longrightarrow> flip_stage E a img = Inr img) \<and>
   (a = [(''rot'', ''abc'')] \<longrightarrow>
      transform E a img = Inl (ValueError ''abc'') \<and>
      kind_of (ValueError ''abc'') = Some InvalidParameter)"
proof (intro conjI allI impI)
  have "(\<exists>e. transform E a img = Inl e \<and> kind_of e = Some InvalidParameter) =
      (\<exists>s. transform E a img = Inl (ValueError s))"
    by (auto simp: kind_InvalidParameter)
  then show "(\<exists>e. transform E a img = Inl e \<and> kind_of e = Some InvalidParameter) =
      (unparsable a ''h'' \<or> unparsable a ''w'' \<or>
       ((\<exists>img1 img2. resize_stage E a img = Inr img1 \<and> crop_stage E a img1 = Inr img2) \<and>
        unparsable a ''rot''))"
    by (simp only: transform_ValueError)
next
  fix e
  assume "flip_stage E a img = Inl e"
  then show "kind_of e \<noteq> Some InvalidParameter"
    using flip_stage_no_ValueError [of E a img] by (auto simp: kind_InvalidParameter)
next
  assume "args_get a ''flip'' \<notin> {Some ''h'', Some ''v'', Some ''hv''}"
  then show "flip_stage E a img = Inr img"
    by (simp add: flip_stage_def)
next
  assume a: "a = [(''rot'', ''abc'')]"
  have "parse_int ''abc'' = None"
    by (simp add: parse_int_def max_str_digits_def strip_def is_space_def
        is_digit_def)
  with a show "transform E a img = Inl (ValueError ''abc'')"
    by (simp add: transform_def resize_stage_def crop_stage_def rotate_stage_def given_def
        args_get_def args_item_def py_int_def)
next
  show "kind_of (ValueError ''abc'') = Some InvalidParameter" by simp
qed

theorem invalid_parameter_exactly_witness:
  "unparsable [(''rot'', ''abc'')] ''rot'' \<and>
   transform demo [(''rot'', ''abc'')] (Picture (5, 3) ''x'') = Inl (ValueError ''abc'') \<and>
   args_get [(''flip'', ''x'')] ''flip'' = Some ''x'' \<and>
   flip_stage demo [(''flip'', ''x'')] (Picture (5, 3) ''x'') = Inr (Picture (5, 3) ''x'')"
proof -
  have u: "unparsable [(''rot'', ''abc'')] ''rot''"
    by (simp add: unparsable_def given_def args_get_def args_item_def parse_int_def max_str_digits_def
        strip_def is_space_def is_digit_def)
  have f: "args_get [(''flip'', ''x'')] ''flip'' = Some ''x''"
    by (simp add: args_get_def)
  from invalid_parameter_exactly [of demo "[(''rot'', ''abc'')]" "Picture (5, 3) ''x''"]
  have 1: "transform demo [(''rot'', ''abc'')] (Picture (5, 3) ''x'') = Inl (ValueError ''abc'')"
    by blast
  from invalid_parameter_exactly [of demo "[(''flip'', ''x'')]" "Picture (5, 3) ''x''"] f
  have 2: "flip_stage demo [(''flip'', ''x'')] (Picture (5, 3) ''x'') = Inr (Picture (5, 3) ''x'')"
    by simp
  from u f 1 2 show ?thesis by blast
qed

text \<open>
  The claim C7 as it is written fails on \<^verbatim>\<open>flip=x\<close> and on \<^verbatim>\<open>w=\<close> with an empty value:
  the condition of the specification holds for both, and the pipeline and the request
  succeed.
\<close>

theorem invalid_parameter_counterexample:
  "spec_invalid_parameter [(''flip'', ''x'')] \<and>
   transform demo [(''flip'', ''x'')] (Picture (5, 3) ''x'') = Inr (Picture (5, 3) ''x'') \<and>
   fst (image_view demo st0 ''cat.jpg'' [(''flip'', ''x'')]) = Inr (Response ''JPEGx'' ''image/jpg'') \<and>
   spec_invalid_parameter [(''w'', '''')] \<and>
   transform demo [(''w'', '''')] (Picture (5, 3) ''x'') = Inr (Picture (5, 3) ''x'')"
  by (simp add: spec_invalid_parameter_def demo_simps)

subsection \<open>Sizes that the library refuses\<close>

lemma new_size_given: "new_size E a img = Some sz \<Longrightarrow> a \<noteq> []"
  by (auto simp: new_size_def given_def args_get_def split: if_splits)

lemma given_nonempty: "given a k \<Longrightarrow> a \<noteq> []"
  by (auto simp: given_def args_get_def)







end
